theory Spec2Isabelle
  imports Complex_Main "HOL-Library.Multiset" "HOL-Library.Log_Nat"
begin

section \<open>Sales Targets Mobile: the monthly KPI store of src/App.js\<close>

text \<open>
  The numbers of the aggregation and CSV functions are the counters and targets of the
  data model, taken as (finite) integers. An integer below \<open>2 ^ 53\<close> in absolute value is
  a double exactly, and so are the sums and differences of such integers that the code
  forms. The quotients and products of the code are rounded as IEEE 754 doubles are
  (\<open>to_double\<close> below). Integers from \<open>2 ^ 53\<close> on, fractional counters, \<open>NaN\<close> and the
  infinities are outside this part of the model (the state operations further down
  keep \<open>NaN\<close> and the infinities, where the code tests for them).
\<close>

subsection \<open>Characters and the decimal notation of numbers\<close>

definition dquote :: char where
  "dquote = CHR 0x22"

definition newline :: char where
  "newline = CHR 0x0A"

definition digit_char :: "nat \<Rightarrow> char" where
  "digit_char d = ''0123456789'' ! d"

text \<open>\<open>String(n)\<close> for a non-negative integer: its decimal digits.\<close>

fun show_nat :: "nat \<Rightarrow> string" where
  "show_nat n = (if n < 10 then [digit_char n] else show_nat (n div 10) @ [digit_char (n mod 10)])"

declare show_nat.simps [simp del]

text \<open>\<open>String(n)\<close> for an integer.\<close>

definition String_of_int :: "int \<Rightarrow> string" where
  "String_of_int i = (if i < 0 then CHR ''-'' # show_nat (nat (- i)) else show_nat (nat i))"

subsection \<open>The arithmetic of doubles\<close>

text \<open>
  A finite double is a rational \<open>m * 2 ^ e\<close> with an integer \<open>m\<close> of at most 53 bits.
  The result of a division or multiplication is the exact result rounded to the
  nearest such number, a tie going to the even \<open>m\<close>. The exponent is not bounded
  here: a quotient or product of the integers below \<open>2 ^ 53\<close> is far from the
  overflow and underflow of doubles.
\<close>

text \<open>The nearest integer, a tie going to the even one.\<close>

definition round_even :: "rat \<Rightarrow> int" where
  "round_even x =
     (let f = \<lfloor>x\<rfloor>; r = x - of_int f
      in if r < 1 / 2 then f else if 1 / 2 < r then f + 1 else if even f then f else f + 1)"

text \<open>The binary exponent of a positive rational: the largest \<open>e\<close> with \<open>2 ^ e \<le> x\<close>.\<close>

definition ilog2 :: "rat \<Rightarrow> int" where
  "ilog2 x =
     (let k = bitlen (fst (quotient_of x)) - bitlen (snd (quotient_of x))
      in if 2 powi k \<le> x then k else k - 1)"

text \<open>
  Rounding to a double: the magnitude is written as \<open>m * ulp\<close> with
  \<open>2 ^ 52 \<le> m < 2 ^ 53\<close>, and \<open>m\<close> is rounded to an integer.
\<close>

definition to_double :: "rat \<Rightarrow> rat" where
  "to_double x =
     (if x = 0 then 0
      else
        let ulp = 2 powi (ilog2 \<bar>x\<bar> - 52)
        in sgn x * of_int (round_even (\<bar>x\<bar> / ulp)) * ulp)"

text \<open>The operators \<open>/\<close>, \<open>*\<close> and \<open>-\<close> on doubles (the divisor is not 0 where the code divides).\<close>

definition double_div :: "rat \<Rightarrow> rat \<Rightarrow> rat" where
  "double_div a b = to_double (a / b)"

definition double_mul :: "rat \<Rightarrow> rat \<Rightarrow> rat" where
  "double_mul a b = to_double (a * b)"

definition double_sub :: "rat \<Rightarrow> rat \<Rightarrow> rat" where
  "double_sub a b = to_double (a - b)"

subsection \<open>Percentages: \<open>pct\<close> (App.js line 48)\<close>

text \<open>\<open>Math.round\<close>: the nearest integer, a half rounded up.\<close>

definition Math_round :: "rat \<Rightarrow> int" where
  "Math_round x = \<lfloor>x + 1 / 2\<rfloor>"

text \<open>
  \<open>function pct(n, d) { if (!d || d === 0) return 0;
     return Math.min(100, Math.round((n / d) * 100)); }\<close>
  The denominator is \<open>None\<close> when it is absent (\<open>undefined\<close>, as
  \<open>targets[k]\<close> of a missing key). The quotient is rounded to a double, its
  product with 100 is rounded to a double, and \<open>Math.round\<close> takes that double.
\<close>

definition pct :: "int \<Rightarrow> int option \<Rightarrow> int" where
  "pct n d =
     (case d of
        None \<Rightarrow> 0
      | Some d' \<Rightarrow>
          if d' = 0 then 0
          else min 100 (Math_round (double_mul (double_div (of_int n) (of_int d')) 100)))"


subsection \<open>Associates, targets and the team targets (App.js lines 268-272)\<close>

text \<open>
  A JavaScript object with number values is the list of its properties, in key order;
  \<open>o[k]\<close> is \<open>map_of o k\<close>, \<open>None\<close> for \<open>undefined\<close>.
\<close>

type_synonym num_object = "(string \<times> int) list"

record associate =
  a_id :: string
  a_name :: string
  a_metrics :: num_object

text \<open>\<open>x || 0\<close> for a number or \<open>undefined\<close>.\<close>

definition or0 :: "int option \<Rightarrow> int" where
  "or0 x = (case x of None \<Rightarrow> 0 | Some v \<Rightarrow> if v = 0 then 0 else v)"

text \<open>\<open>o[k] = v\<close>: an existing property keeps its place, a new one goes last.\<close>

fun obj_set :: "(string \<times> 'a) list \<Rightarrow> string \<Rightarrow> 'a \<Rightarrow> (string \<times> 'a) list" where
  "obj_set [] k v = [(k, v)]"
| "obj_set ((k', v') # ps) k v = (if k' = k then (k, v) # ps else (k', v') # obj_set ps k v)"



text \<open>The canned default targets, \<open>DEFAULT_TARGETS\<close> (App.js lines 11-17).\<close>

definition DEFAULT_TARGETS :: num_object where
  "DEFAULT_TARGETS =
     [(''connects'', 800), (''geoData'', 50), (''buyerAppointments'', 20),
      (''marketAppraisals'', 25), (''listingsGenerated'', 1)]"

text \<open>\<open>Object.keys(KPI_LABELS)\<close> (App.js lines 19-25): the five metrics in display order.\<close>

definition KPI_KEYS :: "string list" where
  "KPI_KEYS =
     [''connects'', ''geoData'', ''buyerAppointments'', ''marketAppraisals'',
      ''listingsGenerated'']"

subsection \<open>CSV export: \<open>toCSV\<close> and \<open>buildCSVFromAssociates\<close> (App.js lines 50-56, 76-86)\<close>

text \<open>The value of a row's property: a string (the name) or a number.\<close>

datatype cell = CStr string | CNum int

type_synonym row = "(string \<times> cell) list"

text \<open>\<open>String(v)\<close>.\<close>

definition String_of :: "cell \<Rightarrow> string" where
  "String_of v = (case v of CStr s \<Rightarrow> s | CNum i \<Rightarrow> String_of_int i)"

text \<open>\<open>s.replaceAll('"', '""')\<close>.\<close>

definition replaceAll_dquote :: "string \<Rightarrow> string" where
  "replaceAll_dquote s = concat (map (\<lambda>c. if c = dquote then [dquote, dquote] else [c]) s)"

text \<open>\<open>const escape = (v) => `"${String(v).replaceAll('"', '""')}"`\<close>.\<close>

definition escape :: "cell \<Rightarrow> string" where
  "escape v = [dquote] @ replaceAll_dquote (String_of v) @ [dquote]"

text \<open>\<open>xs.join(sep)\<close>.\<close>

fun join :: "string \<Rightarrow> string list \<Rightarrow> string" where
  "join sep [] = []"
| "join sep [x] = x"
| "join sep (x # y # ys) = x @ sep @ join sep (y # ys)"

text \<open>
  \<open>function toCSV(rows) {
     if (!rows.length) return '';
     const headers = Object.keys(rows[0]);
     const lines = [headers.join(','),
        ...rows.map((r) => headers.map((h) => escape(r[h] ?? '')).join(','))];
     return lines.join('\n'); }\<close>
\<close>

definition toCSV :: "row list \<Rightarrow> string" where
  "toCSV rows =
     (if length rows = 0 then []
      else
        let headers = map fst (hd rows);
            lines = join '','' headers #
              map (\<lambda>r. join '','' (map (\<lambda>h. escape (case map_of r h of None \<Rightarrow> CStr [] | Some v \<Rightarrow> v)) headers)) rows
        in join [newline] lines)"

definition csv_row :: "associate \<Rightarrow> row" where
  "csv_row a =
     [(''Name'', CStr (a_name a)),
      (''Connects'', CNum (or0 (map_of (a_metrics a) ''connects''))),
      (''GeoData'', CNum (or0 (map_of (a_metrics a) ''geoData''))),
      (''BuyerAppointments'', CNum (or0 (map_of (a_metrics a) ''buyerAppointments''))),
      (''MarketAppraisals'', CNum (or0 (map_of (a_metrics a) ''marketAppraisals''))),
      (''ListingsGenerated'', CNum (or0 (map_of (a_metrics a) ''listingsGenerated'')))]"

definition buildCSVFromAssociates :: "associate list \<Rightarrow> string" where
  "buildCSVFromAssociates associates = toCSV (map csv_row associates)"

text \<open>
  The CSV layout as the specification words it: a field is wrapped in double quotes,
  each double quote inside doubled; the header row is the six column names; a line
  holds the name and the five metric values, 0 for an absent one.
\<close>

fun double_quotes :: "string \<Rightarrow> string" where
  "double_quotes [] = []"
| "double_quotes (c # cs) = (if c = dquote then dquote # dquote # double_quotes cs else c # double_quotes cs)"

definition csv_field :: "string \<Rightarrow> string" where
  "csv_field s = dquote # double_quotes s @ [dquote]"

definition csv_header :: string where
  "csv_header = ''Name,Connects,GeoData,BuyerAppointments,MarketAppraisals,ListingsGenerated''"

definition metric_or_0 :: "associate \<Rightarrow> string \<Rightarrow> int" where
  "metric_or_0 a k = (case map_of (a_metrics a) k of None \<Rightarrow> 0 | Some v \<Rightarrow> v)"

definition csv_line :: "associate \<Rightarrow> string" where
  "csv_line a =
     csv_field (a_name a) @ '','' @
     csv_field (String_of_int (metric_or_0 a ''connects'')) @ '','' @
     csv_field (String_of_int (metric_or_0 a ''geoData'')) @ '','' @
     csv_field (String_of_int (metric_or_0 a ''buyerAppointments'')) @ '','' @
     csv_field (String_of_int (metric_or_0 a ''marketAppraisals'')) @ '','' @
     csv_field (String_of_int (metric_or_0 a ''listingsGenerated''))"

fun csv_lines :: "string list \<Rightarrow> string" where
  "csv_lines [] = []"
| "csv_lines (l # ls) = newline # l @ csv_lines ls"


subsection \<open>The leaderboard (App.js lines 276-279)\<close>

record lb_item =
  lb_id :: string
  lb_name :: string
  listings :: int
  progress :: rat

text \<open>
  \<open>associates.map((a) => {
     const progress = Object.keys(KPI_LABELS).reduce(
        (acc, k) => acc + pct(a.metrics[k] || 0, targets[k]), 0) / Object.keys(KPI_LABELS).length;
     return { id: a.id, name: a.name, listings: a.metrics.listingsGenerated || 0, progress }; })\<close>
\<close>

definition lb_item_of :: "num_object \<Rightarrow> associate \<Rightarrow> lb_item" where
  "lb_item_of targets a =
     \<lparr>lb_id = a_id a, lb_name = a_name a,
      listings = or0 (map_of (a_metrics a) ''listingsGenerated''),
      progress =
        double_div
          (of_int (foldl (\<lambda>acc k. acc + pct (or0 (map_of (a_metrics a) k)) (map_of targets k)) 0 KPI_KEYS))
          (of_nat (length KPI_KEYS))\<rparr>"

text \<open>The comparator \<open>(a, b) => b.listings - a.listings || b.progress - a.progress\<close>.\<close>

definition lb_compare :: "lb_item \<Rightarrow> lb_item \<Rightarrow> rat" where
  "lb_compare a b =
     (let d = listings b - listings a
      in if d \<noteq> 0 then of_int d else double_sub (progress b) (progress a))"

text \<open>
  \<open>Array.prototype.sort(cmp)\<close>, a stable sort: an element goes before the first
  element of the sorted rest that it does not compare greater than.
\<close>

fun insert_sorted :: "('a \<Rightarrow> 'a \<Rightarrow> rat) \<Rightarrow> 'a \<Rightarrow> 'a list \<Rightarrow> 'a list" where
  "insert_sorted cmp x [] = [x]"
| "insert_sorted cmp x (y # ys) =
     (if cmp x y \<le> 0 then x # y # ys else y # insert_sorted cmp x ys)"

definition Array_sort :: "('a \<Rightarrow> 'a \<Rightarrow> rat) \<Rightarrow> 'a list \<Rightarrow> 'a list" where
  "Array_sort cmp xs = foldr (insert_sorted cmp) xs []"

text \<open>\<open>items.sort(...).slice(0, 5)\<close>.\<close>

definition leaderboard :: "num_object \<Rightarrow> associate list \<Rightarrow> lb_item list" where
  "leaderboard targets associates =
     take 5 (Array_sort lb_compare (map (lb_item_of targets) associates))"

text \<open>
  The ranking as the specification words it: the progress of an associate is the
  average of the five percentages (here the exact average, a fifth of their sum); one
  entry ranks before another when it has more listings, or as many and at least as
  much progress.
\<close>

definition percent_of_metric :: "num_object \<Rightarrow> associate \<Rightarrow> string \<Rightarrow> int" where
  "percent_of_metric targets a k = pct (metric_or_0 a k) (map_of targets k)"

definition average_progress :: "num_object \<Rightarrow> associate \<Rightarrow> rat" where
  "average_progress targets a =
     of_int (\<Sum>k\<leftarrow>KPI_KEYS. percent_of_metric targets a k) / 5"

definition ranks_before :: "lb_item \<Rightarrow> lb_item \<Rightarrow> bool" where
  "ranks_before x y \<longleftrightarrow>
     listings y < listings x \<or> (listings x = listings y \<and> progress y \<le> progress x)"

definition same_rank :: "lb_item \<Rightarrow> lb_item \<Rightarrow> bool" where
  "same_rank x y \<longleftrightarrow> listings x = listings y \<and> progress x = progress y"


text \<open>The three sample associates seeded on first run (App.js lines 228-230).\<close>

definition seeded_associates :: "associate list" where
  "seeded_associates =
     [\<lparr>a_id = ''id-1'', a_name = ''Alex'',
        a_metrics = [(''connects'', 120), (''geoData'', 10), (''buyerAppointments'', 3),
                     (''marketAppraisals'', 4), (''listingsGenerated'', 0)]\<rparr>,
      \<lparr>a_id = ''id-2'', a_name = ''Bianca'',
        a_metrics = [(''connects'', 300), (''geoData'', 18), (''buyerAppointments'', 7),
                     (''marketAppraisals'', 10), (''listingsGenerated'', 1)]\<rparr>,
      \<lparr>a_id = ''id-3'', a_name = ''Chris'',
        a_metrics = [(''connects'', 90), (''geoData'', 5), (''buyerAppointments'', 1),
                     (''marketAppraisals'', 2), (''listingsGenerated'', 0)]\<rparr>]"

section \<open>The month state and its JSON import and export\<close>

subsection \<open>JavaScript values\<close>

text \<open>
  The values the state can hold: what \<open>JSON.parse\<close> yields, and the numbers
  \<open>Number(...)\<close> yields. A finite number is an integer here, taken as exact;
  \<open>NaN\<close> and the two infinities are values of their own. An object is the list of
  its properties in key order (the keys the application writes are never array
  indices, which JavaScript would order first).
\<close>

datatype jsnum = Fin int | PosInf | NegInf | NaN

datatype jsval =
    JNull
  | JBool bool
  | JNum jsnum
  | JStr string
  | JArr "jsval list"
  | JObj "(string \<times> jsval) list"

text \<open>Truthiness: \<open>!!v\<close>.\<close>

fun truthy :: "jsval \<Rightarrow> bool" where
  "truthy JNull = False"
| "truthy (JBool b) = b"
| "truthy (JNum (Fin i)) = (i \<noteq> 0)"
| "truthy (JNum NaN) = False"
| "truthy (JNum PosInf) = True"
| "truthy (JNum NegInf) = True"
| "truthy (JStr s) = (s \<noteq> [])"
| "truthy (JArr xs) = True"
| "truthy (JObj ps) = True"

text \<open>\<open>typeof v === 'object'\<close>.\<close>

fun is_object_type :: "jsval \<Rightarrow> bool" where
  "is_object_type JNull = True"
| "is_object_type (JArr xs) = True"
| "is_object_type (JObj ps) = True"
| "is_object_type v = False"

text \<open>
  \<open>v.k\<close> for the property names the application reads (\<open>month\<close>,
  \<open>targets\<close>, \<open>associates\<close>, \<open>id\<close>, \<open>metrics\<close> and the metric
  keys): an object's own property, and \<open>undefined\<close> (\<open>None\<close>) on an array, a
  string, a number or a boolean. On \<open>null\<close> the access throws; the callers below
  test for it first.
\<close>

fun get_prop :: "jsval \<Rightarrow> string \<Rightarrow> jsval option" where
  "get_prop (JObj ps) k = map_of ps k"
| "get_prop v k = None"

text \<open>Truthiness of a property that may be \<open>undefined\<close>.\<close>

definition truthy_prop :: "jsval option \<Rightarrow> bool" where
  "truthy_prop x = (case x of None \<Rightarrow> False | Some v \<Rightarrow> truthy v)"

subsection \<open>\<open>JSON.stringify\<close>\<close>

definition hex_digit :: "nat \<Rightarrow> char" where
  "hex_digit d = ''0123456789abcdef'' ! d"

text \<open>A character of a string in JSON text: quotes, backslashes and control characters escaped.\<close>

definition quote_char :: "char \<Rightarrow> string" where
  "quote_char c =
     (if c = dquote then [CHR 0x5C, dquote]
      else if c = CHR 0x5C then [CHR 0x5C, CHR 0x5C]
      else if c = CHR 0x08 then [CHR 0x5C, CHR ''b'']
      else if c = CHR 0x0C then [CHR 0x5C, CHR ''f'']
      else if c = CHR 0x0A then [CHR 0x5C, CHR ''n'']
      else if c = CHR 0x0D then [CHR 0x5C, CHR ''r'']
      else if c = CHR 0x09 then [CHR 0x5C, CHR ''t'']
      else if (of_char c :: nat) < 32
        then [CHR 0x5C, CHR ''u'', CHR ''0'', CHR ''0'',
              hex_digit ((of_char c :: nat) div 16), hex_digit ((of_char c :: nat) mod 16)]
      else [c])"

definition quote_string :: "string \<Rightarrow> string" where
  "quote_string s = [dquote] @ concat (map quote_char s) @ [dquote]"

text \<open>A number in JSON text: \<open>null\<close> for \<open>NaN\<close> and the infinities.\<close>

fun stringify_num :: "jsnum \<Rightarrow> string" where
  "stringify_num (Fin i) = String_of_int i"
| "stringify_num n = ''null''"

fun JSON_stringify :: "jsval \<Rightarrow> string" where
  "JSON_stringify JNull = ''null''"
| "JSON_stringify (JBool b) = (if b then ''true'' else ''false'')"
| "JSON_stringify (JNum n) = stringify_num n"
| "JSON_stringify (JStr s) = quote_string s"
| "JSON_stringify (JArr xs) = ''['' @ join '','' (map JSON_stringify xs) @ '']''"
| "JSON_stringify (JObj ps) =
     ''{'' @ join '','' (map (\<lambda>(k, v). quote_string k @ '':'' @ JSON_stringify v) ps) @ ''}''"

subsection \<open>\<open>JSON.parse\<close>\<close>

text \<open>
  The JSON grammar, read in two passes: the characters into tokens, the tokens into a
  value. Number literals are the integer literals (a fraction or an exponent is outside
  the number model and is refused here), and a \<open>\u\<close> escape names a character
  below 256.
\<close>

datatype token =
    TLBrace | TRBrace | TLBrack | TRBrack | TComma | TColon
  | TString string | TNumber int | TTrue | TFalse | TNull

datatype lex_state =
    LIdle
  | LStr string
  | LEsc string
  | LUni string "nat list"
  | LNum bool string
  | LWord string token

definition is_ws :: "char \<Rightarrow> bool" where
  "is_ws c \<longleftrightarrow> c = CHR '' '' \<or> c = CHR 0x09 \<or> c = CHR 0x0A \<or> c = CHR 0x0D"

definition is_digit :: "char \<Rightarrow> bool" where
  "is_digit c \<longleftrightarrow> 48 \<le> (of_char c :: nat) \<and> (of_char c :: nat) \<le> 57"

definition digit_val :: "char \<Rightarrow> nat" where
  "digit_val c = of_char c - 48"

definition digits_val :: "string \<Rightarrow> nat" where
  "digits_val ds = foldl (\<lambda>a c. 10 * a + digit_val c) 0 ds"

definition hex_val :: "char \<Rightarrow> nat option" where
  "hex_val c =
     (let n = (of_char c :: nat)
      in if 48 \<le> n \<and> n \<le> 57 then Some (n - 48)
         else if 97 \<le> n \<and> n \<le> 102 then Some (n - 87)
         else if 65 \<le> n \<and> n \<le> 70 then Some (n - 55)
         else None)"

text \<open>The token of a number literal: no digits, or a leading zero before more digits, is an error.\<close>

definition number_token :: "bool \<Rightarrow> string \<Rightarrow> token option" where
  "number_token neg ds =
     (if ds = [] \<or> (hd ds = CHR ''0'' \<and> length ds \<noteq> 1) then None
      else Some (TNumber (if neg then - int (digits_val ds) else int (digits_val ds))))"

definition emit :: "token \<Rightarrow> token list option \<Rightarrow> token list option" where
  "emit t r = map_option (Cons t) r"

definition emit_opt :: "token option \<Rightarrow> token list option \<Rightarrow> token list option" where
  "emit_opt t r = (case t of None \<Rightarrow> None | Some t' \<Rightarrow> emit t' r)"

fun tokenize :: "lex_state \<Rightarrow> string \<Rightarrow> token list option" where
  "tokenize LIdle [] = Some []"
| "tokenize LIdle (c # cs) =
     (if is_ws c then tokenize LIdle cs
      else if c = CHR ''{'' then emit TLBrace (tokenize LIdle cs)
      else if c = CHR ''}'' then emit TRBrace (tokenize LIdle cs)
      else if c = CHR ''['' then emit TLBrack (tokenize LIdle cs)
      else if c = CHR '']'' then emit TRBrack (tokenize LIdle cs)
      else if c = CHR '','' then emit TComma (tokenize LIdle cs)
      else if c = CHR '':'' then emit TColon (tokenize LIdle cs)
      else if c = dquote then tokenize (LStr []) cs
      else if c = CHR ''-'' then tokenize (LNum True []) cs
      else if is_digit c then tokenize (LNum False [c]) cs
      else if c = CHR ''t'' then tokenize (LWord ''rue'' TTrue) cs
      else if c = CHR ''f'' then tokenize (LWord ''alse'' TFalse) cs
      else if c = CHR ''n'' then tokenize (LWord ''ull'' TNull) cs
      else None)"
| "tokenize (LStr acc) [] = None"
| "tokenize (LStr acc) (c # cs) =
     (if c = dquote then emit (TString acc) (tokenize LIdle cs)
      else if c = CHR 0x5C then tokenize (LEsc acc) cs
      else if (of_char c :: nat) < 32 then None
      else tokenize (LStr (acc @ [c])) cs)"
| "tokenize (LEsc acc) [] = None"
| "tokenize (LEsc acc) (c # cs) =
     (if c = dquote then tokenize (LStr (acc @ [dquote])) cs
      else if c = CHR 0x5C then tokenize (LStr (acc @ [CHR 0x5C])) cs
      else if c = CHR ''/'' then tokenize (LStr (acc @ [CHR ''/''])) cs
      else if c = CHR ''b'' then tokenize (LStr (acc @ [CHR 0x08])) cs
      else if c = CHR ''f'' then tokenize (LStr (acc @ [CHR 0x0C])) cs
      else if c = CHR ''n'' then tokenize (LStr (acc @ [CHR 0x0A])) cs
      else if c = CHR ''r'' then tokenize (LStr (acc @ [CHR 0x0D])) cs
      else if c = CHR ''t'' then tokenize (LStr (acc @ [CHR 0x09])) cs
      else if c = CHR ''u'' then tokenize (LUni acc []) cs
      else None)"
| "tokenize (LUni acc hs) [] = None"
| "tokenize (LUni acc hs) (c # cs) =
     (case hex_val c of
        None \<Rightarrow> None
      | Some h \<Rightarrow>
          if length hs < 3 then tokenize (LUni acc (hs @ [h])) cs
          else
            let code = foldl (\<lambda>a d. 16 * a + d) 0 (hs @ [h])
            in if code < 256 then tokenize (LStr (acc @ [char_of code])) cs else None)"
| "tokenize (LNum neg ds) [] = emit_opt (number_token neg ds) (Some [])"
| "tokenize (LNum neg ds) (c # cs) =
     (if is_digit c then tokenize (LNum neg (ds @ [c])) cs
      else if is_ws c then emit_opt (number_token neg ds) (tokenize LIdle cs)
      else if c = CHR '','' then emit_opt (number_token neg ds) (emit TComma (tokenize LIdle cs))
      else if c = CHR '']'' then emit_opt (number_token neg ds) (emit TRBrack (tokenize LIdle cs))
      else if c = CHR ''}'' then emit_opt (number_token neg ds) (emit TRBrace (tokenize LIdle cs))
      else None)"
| "tokenize (LWord [] t) cs = None"
| "tokenize (LWord (r # rs) t) [] = None"
| "tokenize (LWord (r # rs) t) (c # cs) =
     (if c \<noteq> r then None
      else if rs = [] then emit t (tokenize LIdle cs)
      else tokenize (LWord rs t) cs)"

text \<open>
  The tokens into a value, one token at a time, with the enclosing arrays and objects
  on a stack: \<open>CArr es\<close> is an array whose elements so far are \<open>es\<close>,
  \<open>CObj ms k\<close> an object whose members so far are \<open>ms\<close> and whose key
  \<open>k\<close> awaits its value. A key given twice keeps its first place and its last value.
\<close>

datatype frame = CArr "jsval list" | CObj "(string \<times> jsval) list" string

datatype parse_state =
    ExpectValue "frame list"
  | ArrayOpen "frame list"
  | ObjectOpen "frame list"
  | ExpectKey "(string \<times> jsval) list" "frame list"
  | ExpectColon "(string \<times> jsval) list" string "frame list"
  | AfterValue jsval "frame list"

fun value_start :: "frame list \<Rightarrow> token \<Rightarrow> parse_state option" where
  "value_start c TNull = Some (AfterValue JNull c)"
| "value_start c TTrue = Some (AfterValue (JBool True) c)"
| "value_start c TFalse = Some (AfterValue (JBool False) c)"
| "value_start c (TNumber n) = Some (AfterValue (JNum (Fin n)) c)"
| "value_start c (TString s) = Some (AfterValue (JStr s) c)"
| "value_start c TLBrack = Some (ArrayOpen c)"
| "value_start c TLBrace = Some (ObjectOpen c)"
| "value_start c t = None"

fun step :: "parse_state \<Rightarrow> token \<Rightarrow> parse_state option" where
  "step (ExpectValue c) t = value_start c t"
| "step (ArrayOpen c) t =
     (if t = TRBrack then Some (AfterValue (JArr []) c) else value_start (CArr [] # c) t)"
| "step (ObjectOpen c) t =
     (case t of
        TRBrace \<Rightarrow> Some (AfterValue (JObj []) c)
      | TString k \<Rightarrow> Some (ExpectColon [] k c)
      | _ \<Rightarrow> None)"
| "step (ExpectKey ms c) t =
     (case t of TString k \<Rightarrow> Some (ExpectColon ms k c) | _ \<Rightarrow> None)"
| "step (ExpectColon ms k c) t =
     (if t = TColon then Some (ExpectValue (CObj ms k # c)) else None)"
| "step (AfterValue v []) t = None"
| "step (AfterValue v (CArr es # c)) t =
     (case t of
        TComma \<Rightarrow> Some (ExpectValue (CArr (es @ [v]) # c))
      | TRBrack \<Rightarrow> Some (AfterValue (JArr (es @ [v])) c)
      | _ \<Rightarrow> None)"
| "step (AfterValue v (CObj ms k # c)) t =
     (case t of
        TComma \<Rightarrow> Some (ExpectKey (obj_set ms k v) c)
      | TRBrace \<Rightarrow> Some (AfterValue (JObj (obj_set ms k v)) c)
      | _ \<Rightarrow> None)"

fun run :: "parse_state \<Rightarrow> token list \<Rightarrow> jsval option" where
  "run s [] = (case s of AfterValue v [] \<Rightarrow> Some v | _ \<Rightarrow> None)"
| "run s (t # ts) = (case step s t of None \<Rightarrow> None | Some s' \<Rightarrow> run s' ts)"

text \<open>
  \<open>JSON.parse(text)\<close>: the value, or the message of the \<open>SyntaxError\<close> it throws
  (the wording is the engine's).
\<close>

definition JSON_parse :: "string \<Rightarrow> string + jsval" where
  "JSON_parse s =
     (case tokenize LIdle s of
        None \<Rightarrow> Inl ''JSON Parse error''
      | Some ts \<Rightarrow>
          (case run (ExpectValue []) ts of
             None \<Rightarrow> Inl ''JSON Parse error''
           | Some v \<Rightarrow> Inr v))"


subsection \<open>What a JSON text keeps of a value\<close>

text \<open>
  The value a text printed by \<open>JSON.stringify\<close> stands for: \<open>NaN\<close> and the
  infinities have become \<open>null\<close>.
\<close>

fun json_image :: "jsval \<Rightarrow> jsval" where
  "json_image (JNum (Fin i)) = JNum (Fin i)"
| "json_image (JNum PosInf) = JNull"
| "json_image (JNum NegInf) = JNull"
| "json_image (JNum NaN) = JNull"
| "json_image (JArr xs) = JArr (map json_image xs)"
| "json_image (JObj ps) = JObj (map (\<lambda>(k, v). (k, json_image v)) ps)"
| "json_image v = v"

text \<open>Every number in the value is finite.\<close>

fun finite_numbers :: "jsval \<Rightarrow> bool" where
  "finite_numbers (JNum (Fin i)) = True"
| "finite_numbers (JNum n) = False"
| "finite_numbers (JArr xs) = list_all finite_numbers xs"
| "finite_numbers (JObj ps) = list_all (\<lambda>(k, v). finite_numbers v) ps"
| "finite_numbers v = True"

text \<open>The keys of every object in the value are distinct, as those of a JavaScript object are.\<close>

fun distinct_keys :: "jsval \<Rightarrow> bool" where
  "distinct_keys (JArr xs) = list_all distinct_keys xs"
| "distinct_keys (JObj ps) = (distinct (map fst ps) \<and> list_all (\<lambda>(k, v). distinct_keys v) ps)"
| "distinct_keys v = True"

text \<open>The tokens of the text \<open>JSON.stringify\<close> prints.\<close>

fun separated :: "'a \<Rightarrow> 'a list list \<Rightarrow> 'a list" where
  "separated sep [] = []"
| "separated sep [x] = x"
| "separated sep (x # y # ys) = x @ sep # separated sep (y # ys)"

fun tokens_of :: "jsval \<Rightarrow> token list" where
  "tokens_of JNull = [TNull]"
| "tokens_of (JBool b) = [if b then TTrue else TFalse]"
| "tokens_of (JNum (Fin i)) = [TNumber i]"
| "tokens_of (JNum PosInf) = [TNull]"
| "tokens_of (JNum NegInf) = [TNull]"
| "tokens_of (JNum NaN) = [TNull]"
| "tokens_of (JStr s) = [TString s]"
| "tokens_of (JArr xs) = TLBrack # separated TComma (map tokens_of xs) @ [TRBrack]"
| "tokens_of (JObj ps) =
     TLBrace # separated TComma (map (\<lambda>(k, v). TString k # TColon # tokens_of v) ps) @ [TRBrace]"


text \<open>After a printed value the text ends, or a comma or a closing bracket follows.\<close>

definition delim :: "string \<Rightarrow> bool" where
  "delim rest \<longleftrightarrow> rest = [] \<or> hd rest = CHR '','' \<or> hd rest = CHR '']'' \<or> hd rest = CHR ''}''"

text \<open>A list of tokens in front of the tokens of the rest of the text.\<close>

definition prefixed :: "token list \<Rightarrow> token list option \<Rightarrow> token list option" where
  "prefixed ts r = map_option (\<lambda>us. ts @ us) r"


subsection \<open>The state of the screen and its operations (App.js lines 203-297)\<close>

text \<open>
  The hooks of \<open>App\<close> that the operations read and write. After an import the month,
  the targets and the associates are whatever values the imported text held.
\<close>

record app_state =
  month :: jsval
  targets :: jsval
  associates :: jsval
  newName :: string
  importVisible :: bool
  importText :: string

datatype js_error = TypeError

text \<open>The alert an operation shows: its title and its message.\<close>

type_synonym alert = "string \<times> string"

text \<open>
  The body of \<open>importJSON\<close> after \<open>JSON.parse(importText)\<close> has returned
  \<open>r\<close> (the value, or the message of the error thrown):
  \<open>if (!obj || typeof obj !== 'object') throw new Error('Invalid JSON');
     if (obj.month && obj.targets && obj.associates) {
       setMonth(obj.month); setTargets(obj.targets); setAssociates(obj.associates);
       setImportVisible(false); setImportText(''); }
     else { throw new Error('JSON missing keys {month, targets, associates}'); }\<close>
  and \<open>catch (e) { Alert.alert('Import failed', String(e?.message || e)); }\<close>.
\<close>

definition importParsed :: "string + jsval \<Rightarrow> app_state \<Rightarrow> app_state \<times> alert option" where
  "importParsed r st =
     (case r of
        Inl msg \<Rightarrow> (st, Some (''Import failed'', msg))
      | Inr obj \<Rightarrow>
          if \<not> truthy obj \<or> \<not> is_object_type obj
          then (st, Some (''Import failed'', ''Invalid JSON''))
          else if truthy_prop (get_prop obj ''month'') \<and> truthy_prop (get_prop obj ''targets'')
                  \<and> truthy_prop (get_prop obj ''associates'')
          then (st\<lparr>month := the (get_prop obj ''month''),
                   targets := the (get_prop obj ''targets''),
                   associates := the (get_prop obj ''associates''),
                   importVisible := False,
                   importText := []\<rparr>, None)
          else (st, Some (''Import failed'', ''JSON missing keys {month, targets, associates}'')))"

definition importJSON :: "app_state \<Rightarrow> app_state \<times> alert option" where
  "importJSON st = importParsed (JSON_parse (importText st)) st"

text \<open>
  \<open>exportJSON\<close>: the text printed to the console,
  \<open>JSON.stringify({ month, targets, associates })\<close>; the state is not changed.
\<close>

definition exportJSON :: "app_state \<Rightarrow> string" where
  "exportJSON st =
     JSON_stringify (JObj [(''month'', month st), (''targets'', targets st),
                           (''associates'', associates st)])"

text \<open>\<open>s.trim()\<close>, for the white space among the characters below 256.\<close>

definition is_space :: "char \<Rightarrow> bool" where
  "is_space c \<longleftrightarrow> (of_char c :: nat) \<in> {9, 10, 11, 12, 13, 32, 160}"

definition trim :: "string \<Rightarrow> string" where
  "trim s = rev (dropWhile is_space (rev (dropWhile is_space s)))"

text \<open>\<open>[...v]\<close>: the elements of an array, the characters of a string; nothing else iterates.\<close>

fun spread_array :: "jsval \<Rightarrow> js_error + jsval list" where
  "spread_array (JArr xs) = Inr xs"
| "spread_array (JStr s) = Inr (map (\<lambda>c. JStr [c]) s)"
| "spread_array v = Inl TypeError"

text \<open>\<open>{...v}\<close>: the own properties of an object, the indexed elements of an array or string.\<close>

fun spread_object :: "jsval option \<Rightarrow> (string \<times> jsval) list" where
  "spread_object (Some (JObj ps)) = ps"
| "spread_object (Some (JArr xs)) = zip (map show_nat [0 ..< length xs]) xs"
| "spread_object (Some (JStr s)) = zip (map show_nat [0 ..< length s]) (map (\<lambda>c. JStr [c]) s)"
| "spread_object v = []"

definition zero_metrics :: jsval where
  "zero_metrics =
     JObj [(''connects'', JNum (Fin 0)), (''geoData'', JNum (Fin 0)),
           (''buyerAppointments'', JNum (Fin 0)), (''marketAppraisals'', JNum (Fin 0)),
           (''listingsGenerated'', JNum (Fin 0))]"

text \<open>
  \<open>function addAssociate() { if (!newName.trim()) return;
     setAssociates((prev) => ([...prev, { id: genId(), name: newName.trim(),
        metrics: { connects: 0, geoData: 0, buyerAppointments: 0, marketAppraisals: 0,
                   listingsGenerated: 0 } }]));
     setNewName(''); }\<close>
  The identifier \<open>genId()\<close> returns is the argument \<open>new_id\<close>.
\<close>

definition addAssociate :: "string \<Rightarrow> app_state \<Rightarrow> js_error + app_state" where
  "addAssociate new_id st =
     (if trim (newName st) = [] then Inr st
      else
        case spread_array (associates st) of
          Inl e \<Rightarrow> Inl e
        | Inr prev \<Rightarrow>
            Inr (st\<lparr>associates :=
                       JArr (prev @ [JObj [(''id'', JStr new_id), (''name'', JStr (trim (newName st))),
                                           (''metrics'', zero_metrics)]]),
                     newName := []\<rparr>))"

text \<open>\<open>xs.map(f)\<close> where \<open>f\<close> may throw.\<close>

fun map_throwing :: "('a \<Rightarrow> js_error + 'b) \<Rightarrow> 'a list \<Rightarrow> js_error + 'b list" where
  "map_throwing f [] = Inr []"
| "map_throwing f (x # xs) =
     (case f x of
        Inl e \<Rightarrow> Inl e
      | Inr y \<Rightarrow> (case map_throwing f xs of Inl e \<Rightarrow> Inl e | Inr ys \<Rightarrow> Inr (y # ys)))"

text \<open>\<open>Number.isNaN(v) || v < 0\<close>.\<close>

fun nan_or_negative :: "jsnum \<Rightarrow> bool" where
  "nan_or_negative NaN = True"
| "nan_or_negative NegInf = True"
| "nan_or_negative PosInf = False"
| "nan_or_negative (Fin i) = (i < 0)"

text \<open>\<open>(a) => (a.id === id ? { ...a, metrics: { ...a.metrics, [key]: v } } : a)\<close>.\<close>

fun update_associate :: "string \<Rightarrow> string \<Rightarrow> jsnum \<Rightarrow> jsval \<Rightarrow> js_error + jsval" where
  "update_associate ident key v JNull = Inl TypeError"
| "update_associate ident key v (JObj ps) =
     (if map_of ps ''id'' = Some (JStr ident)
      then Inr (JObj (obj_set ps ''metrics''
                  (JObj (obj_set (spread_object (map_of ps ''metrics'')) key (JNum v)))))
      else Inr (JObj ps))"
| "update_associate ident key v a = Inr a"

text \<open>
  \<open>function updateMetric(id, key, value) { const v = Number(value);
     if (Number.isNaN(v) || v < 0) return;
     setAssociates((prev) => prev.map((a) => (...))); }\<close>
  The argument \<open>v\<close> is the number \<open>Number(value)\<close>.
\<close>

definition updateMetric :: "string \<Rightarrow> string \<Rightarrow> jsnum \<Rightarrow> app_state \<Rightarrow> js_error + app_state" where
  "updateMetric ident key v st =
     (if nan_or_negative v then Inr st
      else
        case associates st of
          JArr prev \<Rightarrow>
            (case map_throwing (update_associate ident key v) prev of
               Inl e \<Rightarrow> Inl e
             | Inr xs \<Rightarrow> Inr (st\<lparr>associates := JArr xs\<rparr>))
        | _ \<Rightarrow> Inl TypeError)"

text \<open>\<open>(a) => a.id !== id\<close>.\<close>

fun other_id :: "string \<Rightarrow> jsval \<Rightarrow> js_error + bool" where
  "other_id ident JNull = Inl TypeError"
| "other_id ident a = Inr (get_prop a ''id'' \<noteq> Some (JStr ident))"

fun filter_throwing :: "('a \<Rightarrow> js_error + bool) \<Rightarrow> 'a list \<Rightarrow> js_error + 'a list" where
  "filter_throwing f [] = Inr []"
| "filter_throwing f (x # xs) =
     (case f x of
        Inl e \<Rightarrow> Inl e
      | Inr b \<Rightarrow>
          (case filter_throwing f xs of
             Inl e \<Rightarrow> Inl e
           | Inr ys \<Rightarrow> Inr (if b then x # ys else ys)))"

text \<open>\<open>function deleteAssociate(id) { setAssociates((prev) => prev.filter((a) => a.id !== id)); }\<close>\<close>

definition deleteAssociate :: "string \<Rightarrow> app_state \<Rightarrow> js_error + app_state" where
  "deleteAssociate ident st =
     (case associates st of
        JArr prev \<Rightarrow>
          (case filter_throwing (other_id ident) prev of
             Inl e \<Rightarrow> Inl e
           | Inr xs \<Rightarrow> Inr (st\<lparr>associates := JArr xs\<rparr>))
      | _ \<Rightarrow> Inl TypeError)"

text \<open>\<open>function resetMonth() { setTargets({ ...DEFAULT_TARGETS }); setAssociates([]); }\<close>\<close>

definition resetMonth :: "app_state \<Rightarrow> app_state" where
  "resetMonth st =
     st\<lparr>targets := JObj (map (\<lambda>(k, v). (k, JNum (Fin v))) DEFAULT_TARGETS),
        associates := JArr []\<rparr>"

text \<open>
  The invariant of the data model: the state holds a list of associates, and each of
  the five metrics of each associate is a non-negative number.
\<close>

fun nonneg_number :: "jsval option \<Rightarrow> bool" where
  "nonneg_number (Some (JNum (Fin i))) = (0 \<le> i)"
| "nonneg_number (Some (JNum PosInf)) = True"
| "nonneg_number v = False"

definition metrics_nonneg :: "jsval \<Rightarrow> bool" where
  "metrics_nonneg a =
     (case get_prop a ''metrics'' of
        None \<Rightarrow> False
      | Some m \<Rightarrow> list_all (\<lambda>k. nonneg_number (get_prop m k)) KPI_KEYS)"

definition metrics_invariant :: "app_state \<Rightarrow> bool" where
  "metrics_invariant st =
     (case associates st of JArr xs \<Rightarrow> list_all metrics_nonneg xs | _ \<Rightarrow> False)"


text \<open>Two states about to import a text.\<close>

definition import_ok_state :: app_state where
  \<open>import_ok_state =
     \<lparr>month = JStr ''2025-08'', targets = JObj [], associates = JArr [],
      newName = [], importVisible = True,
      importText = ''{"month":"2025-09","targets":{"connects":5},"associates":[]}''\<rparr>\<close>

definition import_empty_month_state :: app_state where
  \<open>import_empty_month_state =
     \<lparr>month = JStr ''2025-08'', targets = JObj [], associates = JArr [],
      newName = [], importVisible = True,
      importText = ''{"month":"","targets":{"connects":5},"associates":[]}''\<rparr>\<close>


text \<open>A state with one associate, about to import a text.\<close>

definition team_state :: app_state where
  \<open>team_state =
     \<lparr>month = JStr ''2025-08'',
      targets = JObj [(''connects'', JNum (Fin 800))],
      associates =
        JArr [JObj [(''id'', JStr ''id-1''), (''name'', JStr ''Alex''),
                    (''metrics'',
                     JObj [(''connects'', JNum (Fin 120)), (''geoData'', JNum (Fin 10)),
                           (''buyerAppointments'', JNum (Fin 3)), (''marketAppraisals'', JNum (Fin 4)),
                           (''listingsGenerated'', JNum (Fin 0))])]],
      newName = '' Dana '', importVisible = True,
      importText =
        ''{"month":"2025-08","targets":{"connects":800},"associates":[{"id":"id-1","name":"Alex","metrics":{"connects":-5,"geoData":10,"buyerAppointments":3,"marketAppraisals":4,"listingsGenerated":0}}]}''\<rparr>\<close>


section \<open>Identifiers: \<open>genId\<close> (App.js lines 58-62)\<close>

text \<open>
  What the environment gives one call of \<open>genId\<close>: whether
  \<open>globalThis.crypto.randomUUID\<close> exists, and what it returns or that it throws; the
  text \<open>Math.random().toString(36)\<close>; and \<open>Date.now()\<close>.
\<close>

datatype uuid_source = NoRandomUUID | RandomUUID_throws | RandomUUID string

record id_env =
  crypto_randomUUID :: uuid_source
  random36 :: string
  date_now :: nat

text \<open>\<open>s.slice(a, b)\<close> for \<open>0 \<le> a \<le> b\<close>.\<close>

definition slice :: "nat \<Rightarrow> nat \<Rightarrow> string \<Rightarrow> string" where
  "slice a b s = take (b - a) (drop a s)"

text \<open>
  \<open>function genId() {
     try { if (globalThis.crypto?.randomUUID) return globalThis.crypto.randomUUID(); } catch {}
     const rand = Math.random().toString(36).slice(2, 10);
     return `id-${rand}-${Date.now()}`; }\<close>
\<close>

definition genId :: "id_env \<Rightarrow> string" where
  "genId env =
     (case crypto_randomUUID env of
        RandomUUID u \<Rightarrow> u
      | _ \<Rightarrow>
          let rand = slice 2 10 (random36 env)
          in ''id-'' @ rand @ ''-'' @ show_nat (date_now env))"

text \<open>The environment has no usable UUID generator: the fallback path is taken.\<close>

definition no_uuid :: "id_env \<Rightarrow> bool" where
  "no_uuid env \<longleftrightarrow> (case crypto_randomUUID env of RandomUUID u \<Rightarrow> False | _ \<Rightarrow> True)"


section \<open>The background email task (App.js lines 149-182)\<close>

text \<open>\<open>BackgroundFetch.BackgroundFetchResult\<close>.\<close>

datatype fetch_result = NewData | NoData | Failed

text \<open>The outcome of a call that may throw, or of an awaited promise that may reject.\<close>

datatype 'a outcome = Throws | Returns 'a

text \<open>A request the task sends: the webhook and the fields of the JSON body.\<close>

record post =
  p_url :: string
  p_to :: string
  p_subject :: string
  p_text :: string
  p_csv :: string
  p_month :: string

text \<open>
  What one run of the task finds: the items of the persistent storage (\<open>None\<close> for
  \<open>null\<close>; the send hour as the number \<open>Number(...)\<close> reads from the stored text),
  the month \<open>monthKey()\<close>, the local time \<open>now.getHours()\<close> and
  \<open>now.getMinutes()\<close>, and how the webhook answers (\<open>res.ok\<close>).
\<close>

record task_env =
  item_store :: "string option outcome"
  item_email_to :: "string option outcome"
  item_webhook :: "string option outcome"
  item_send_hour :: "int option outcome"
  current_month :: string
  now_hours :: int
  now_minutes :: int
  fetch_ok :: "bool outcome"

definition DEFAULT_EMAIL :: string where
  "DEFAULT_EMAIL = ''john.yatman@raywhite.com''"

definition DEFAULT_SEND_HOUR :: int where
  "DEFAULT_SEND_HOUR = 18"

text \<open>\<open>{ targets: DEFAULT_TARGETS, associates: [] }\<close>.\<close>

definition default_month_state :: jsval where
  "default_month_state =
     JObj [(''targets'', JObj (map (\<lambda>(k, v). (k, JNum (Fin v))) DEFAULT_TARGETS)),
           (''associates'', JArr [])]"

text \<open>\<open>x || d\<close> for a string or \<open>null\<close>.\<close>

definition or_default :: "string option \<Rightarrow> string \<Rightarrow> string" where
  "or_default x d = (case x of None \<Rightarrow> d | Some s \<Rightarrow> if s = [] then d else s)"

text \<open>\<open>raw ? JSON.parse(raw) : {}\<close>, then \<open>store[month] || { ... }\<close>, which throws on \<open>null\<close>.\<close>

definition read_month_state :: "string option \<Rightarrow> string \<Rightarrow> jsval outcome" where
  "read_month_state raw m =
     (case (if or_default raw [] = [] then Inr (JObj []) else JSON_parse (or_default raw [])) of
        Inl e \<Rightarrow> Throws
      | Inr store \<Rightarrow>
          if store = JNull then Throws
          else
            case get_prop store m of
              None \<Rightarrow> Returns default_month_state
            | Some v \<Rightarrow> Returns (if truthy v then v else default_month_state))"

text \<open>
  \<open>const minutesNow = now.getHours() * 60 + now.getMinutes();
     const minutesTarget = sendHour * 60;
     const withinWindow = Math.abs(minutesNow - minutesTarget) <= 30;\<close>
\<close>

definition withinWindow :: "int \<Rightarrow> int \<Rightarrow> int \<Rightarrow> bool" where
  "withinWindow sendHour hours minutes \<longleftrightarrow>
     (let minutesNow = hours * 60 + minutes; minutesTarget = sendHour * 60
      in \<bar>minutesNow - minutesTarget\<bar> \<le> 30)"

text \<open>The dash of the subject line, \<open>Daily KPI - month\<close>, in UTF-8.\<close>

definition en_dash :: string where
  "en_dash = [CHR 0xE2, CHR 0x80, CHR 0x93]"

definition on_return :: "'a outcome \<Rightarrow> ('a \<Rightarrow> fetch_result \<times> post list) \<Rightarrow> fetch_result \<times> post list" where
  "on_return x f = (case x of Throws \<Rightarrow> (Failed, []) | Returns v \<Rightarrow> f v)"

text \<open>
  The task of \<open>TaskManager.defineTask(TASK_NAME, async () => { try { ... } catch (e) {
  return Failed; } })\<close>: its result and the requests it sent. The two renderers,
  \<open>buildSnapshotText({ month, associates, targets })\<close> and
  \<open>buildCSVFromAssociates(associates)\<close>, are parameters: they are applied to the
  stored values as they are, and may throw.
\<close>

definition email_task ::
  "(string \<Rightarrow> jsval option \<Rightarrow> jsval option \<Rightarrow> string outcome) \<Rightarrow> (jsval option \<Rightarrow> string outcome) \<Rightarrow>
   task_env \<Rightarrow> fetch_result \<times> post list" where
  "email_task snapshot_text csv_text env =
     on_return (item_store env) (\<lambda>raw.
     on_return (read_month_state raw (current_month env)) (\<lambda>state.
     on_return (item_email_to env) (\<lambda>to_item.
     on_return (item_webhook env) (\<lambda>webhook.
     on_return (item_send_hour env) (\<lambda>hour_item.
       let to = or_default to_item DEFAULT_EMAIL;
           sendHour = (case hour_item of None \<Rightarrow> DEFAULT_SEND_HOUR | Some h \<Rightarrow> h)
       in if \<not> withinWindow sendHour (now_hours env) (now_minutes env) then (NoData, [])
          else
            on_return (snapshot_text (current_month env) (get_prop state ''associates'')
                         (get_prop state ''targets'')) (\<lambda>text.
            on_return (csv_text (get_prop state ''associates'')) (\<lambda>csv.
              if or_default webhook [] \<noteq> []
              then
                let request = \<lparr>p_url = or_default webhook [], p_to = to,
                                p_subject = ''Daily KPI '' @ en_dash @ '' '' @ current_month env,
                                p_text = text, p_csv = csv, p_month = current_month env\<rparr>
                in (case fetch_ok env of
                      Throws \<Rightarrow> (Failed, [request])
                    | Returns ok \<Rightarrow> (if ok then NewData else Failed, [request]))
              else (NoData, []))))))))"

text \<open>
  The window as the specification words it: the time of day is within 30 minutes of
  the send hour on the clock, before or after, midnight included.
\<close>

definition clock_distance :: "int \<Rightarrow> int \<Rightarrow> int" where
  "clock_distance a b = min (\<bar>a - b\<bar>) (1440 - \<bar>a - b\<bar>)"

definition within_30_minutes :: "int \<Rightarrow> int \<Rightarrow> int \<Rightarrow> bool" where
  "within_30_minutes sendHour hours minutes \<longleftrightarrow>
     clock_distance (hours * 60 + minutes) (sendHour * 60) \<le> 30"


text \<open>A run at 18:10 with send hour 18, nothing stored but a webhook.\<close>

definition evening_env :: task_env where
  "evening_env =
     \<lparr>item_store = Returns None, item_email_to = Returns None,
      item_webhook = Returns (Some ''https://example.org/hook''),
      item_send_hour = Returns (Some 18), current_month = ''2025-08'',
      now_hours = 18, now_minutes = 10, fetch_ok = Returns True\<rparr>"


text \<open>The state of one associate after \<open>updateMetric\<close> has stored \<open>Infinity\<close>.\<close>

definition infinity_state :: app_state where
  "infinity_state =
     team_state\<lparr>associates :=
        JArr [JObj [(''id'', JStr ''id-1''), (''name'', JStr ''Alex''),
                    (''metrics'',
                     JObj [(''connects'', JNum PosInf), (''geoData'', JNum (Fin 10)),
                           (''buyerAppointments'', JNum (Fin 3)), (''marketAppraisals'', JNum (Fin 4)),
                           (''listingsGenerated'', JNum (Fin 0))])]]\<rparr>"


section \<open>Properties\<close>

subsection \<open>The arithmetic of doubles\<close>

text \<open>
  Rounding to a double keeps the sign and moves a number by at most the fraction
  \<open>2 ^ -53\<close> of its magnitude.
\<close>

lemma round_even_error: "\<bar>of_int (round_even x) - x\<bar> \<le> 1 / 2"
proof -
  have "of_int \<lfloor>x\<rfloor> \<le> x" "x < of_int \<lfloor>x\<rfloor> + 1"
    by linarith+
  then show ?thesis
    by (auto simp: round_even_def Let_def abs_le_iff)
qed

lemma round_even_mono_int: "of_int k \<le> x \<Longrightarrow> k \<le> round_even x"
proof -
  assume "of_int k \<le> x"
  then have "k \<le> \<lfloor>x\<rfloor>" by (simp add: le_floor_iff)
  then show ?thesis
    by (auto simp: round_even_def Let_def)
qed

lemma bitlen_powi_bounds:
  assumes "0 < p"
  shows "(2 :: rat) powi (bitlen p - 1) \<le> of_int p" "of_int p < (2 :: rat) powi (bitlen p)"
proof -
  from bitlen_bounds [OF assms]
  have b: "2 ^ nat (bitlen p - 1) \<le> p" "p < 2 ^ nat (bitlen p)"
    by simp_all
  have pos: "0 \<le> bitlen p - 1"
    using assms by (simp add: bitlen_alt_def)
  have "(2 :: rat) powi (bitlen p - 1) = 2 ^ nat (bitlen p - 1)"
    using pos by (simp add: power_int_def)
  also have "\<dots> = of_int (2 ^ nat (bitlen p - 1))"
    by simp
  also have "\<dots> \<le> of_int p"
    using b(1) by (simp only: of_int_le_iff)
  finally show "(2 :: rat) powi (bitlen p - 1) \<le> of_int p" .
  have "(of_int p :: rat) < of_int (2 ^ nat (bitlen p))"
    using b(2) by (simp only: of_int_less_iff)
  also have "\<dots> = 2 powi (bitlen p)"
    using pos by (simp add: power_int_def)
  finally show "of_int p < (2 :: rat) powi (bitlen p)" .
qed

lemma two_powi_diff: "(2 :: rat) powi (m - n) = 2 powi m / 2 powi n"
  by (rule power_int_diff) simp

lemma ilog2_bounds:
  assumes "0 < a"
  shows "2 powi (ilog2 a) \<le> a" "a < 2 powi (ilog2 a + 1)"
proof -
  obtain p q where pq: "quotient_of a = (p, q)"
    by (cases "quotient_of a")
  then have q: "0 < q" and a: "a = of_int p / of_int q"
    by (simp_all add: quotient_of_denom_pos quotient_of_div)
  from assms a q have p: "0 < p"
    by (simp add: zero_less_divide_iff)
  let ?k = "bitlen p - bitlen q"
  have lower: "(2 :: rat) powi (?k - 1) \<le> a"
  proof -
    have "?k - 1 = (bitlen p - 1) - bitlen q"
      by simp
    then have "(2 :: rat) powi (?k - 1) = 2 powi (bitlen p - 1) / 2 powi (bitlen q)"
      by (simp only: two_powi_diff)
    also have "\<dots> \<le> of_int p / 2 powi (bitlen q)"
      using bitlen_powi_bounds(1) [OF p] by (simp add: divide_right_mono)
    also have "\<dots> \<le> of_int p / of_int q"
      using bitlen_powi_bounds(2) [OF q] p q by (simp add: frac_le)
    finally show ?thesis by (simp add: a)
  qed
  have upper: "a < (2 :: rat) powi (?k + 1)"
  proof -
    have "a = of_int p / of_int q" by (rule a)
    also have "\<dots> < 2 powi (bitlen p) / of_int q"
      using bitlen_powi_bounds(2) [OF p] q by (simp add: divide_strict_right_mono)
    also have "\<dots> \<le> 2 powi (bitlen p) / 2 powi (bitlen q - 1)"
      using bitlen_powi_bounds(1) [OF q] q by (simp add: frac_le)
    also have "\<dots> = 2 powi (bitlen p - (bitlen q - 1))"
      by (simp only: two_powi_diff)
    also have "bitlen p - (bitlen q - 1) = ?k + 1"
      by simp
    finally show ?thesis .
  qed
  show "2 powi (ilog2 a) \<le> a"
    using lower pq by (simp add: ilog2_def Let_def)
  show "a < 2 powi (ilog2 a + 1)"
    using upper pq by (auto simp: ilog2_def Let_def not_le)
qed

lemma two_powi_pos: "0 < (2 :: rat) powi k"
  by (simp add: power_int_def)

lemma ulp_bound:
  assumes "0 < a"
  shows "2 powi (ilog2 a - 52) \<le> a / 2 ^ 52"
proof -
  have "(2 :: rat) powi (ilog2 a - 52) = 2 powi (ilog2 a) / 2 powi 52"
    by (rule two_powi_diff)
  also have "\<dots> = 2 powi (ilog2 a) / 2 ^ 52"
    by (simp add: power_int_def)
  also have "\<dots> \<le> a / 2 ^ 52"
    using ilog2_bounds(1) [OF assms] by (simp add: divide_right_mono)
  finally show ?thesis .
qed

lemma to_double_pos:
  assumes "0 < x"
  shows "to_double x = of_int (round_even (x / 2 powi (ilog2 x - 52))) * 2 powi (ilog2 x - 52)"
    and "0 < to_double x"
    and "\<bar>to_double x - x\<bar> \<le> x / 2 ^ 53"
proof -
  let ?u = "(2 :: rat) powi (ilog2 x - 52)"
  let ?m = "round_even (x / ?u)"
  have u: "0 < ?u" by (rule two_powi_pos)
  show eq: "to_double x = of_int ?m * ?u"
    using assms by (simp add: to_double_def Let_def)
  have "?u \<le> x / 2 ^ 52"
    using assms by (rule ulp_bound)
  then have "?u * 2 ^ 52 \<le> x"
    by (simp add: pos_le_divide_eq)
  then have "(2 :: rat) ^ 52 \<le> x / ?u"
    using u by (simp add: pos_le_divide_eq mult.commute)
  moreover have "(1 :: rat) \<le> 2 ^ 52"
    by simp
  ultimately have "(1 :: rat) \<le> x / ?u"
    by (rule order_trans [rotated])
  then have "1 \<le> ?m"
    using round_even_mono_int [of 1 "x / ?u"] by simp
  then have "(0 :: rat) < of_int ?m" by simp
  with u eq show "0 < to_double x"
    by simp
  have "\<bar>of_int ?m - x / ?u\<bar> \<le> 1 / 2"
    by (rule round_even_error)
  then have "\<bar>of_int ?m - x / ?u\<bar> * ?u \<le> (1 / 2) * ?u"
    using u by (simp only: mult_le_cancel_right_pos)
  moreover have "\<bar>of_int ?m - x / ?u\<bar> * ?u = \<bar>of_int ?m * ?u - x\<bar>"
  proof -
    have "\<bar>of_int ?m - x / ?u\<bar> * ?u = \<bar>(of_int ?m - x / ?u) * ?u\<bar>"
      using u by (simp add: abs_mult)
    also have "(of_int ?m - x / ?u) * ?u = of_int ?m * ?u - x"
      using u by (simp add: left_diff_distrib)
    finally show ?thesis .
  qed
  ultimately have "\<bar>to_double x - x\<bar> \<le> ?u / 2"
    using eq by simp
  also have "\<dots> \<le> (x / 2 ^ 52) / 2"
    using ulp_bound [OF assms] by simp
  also have "\<dots> = x / 2 ^ 53"
    by simp
  finally show "\<bar>to_double x - x\<bar> \<le> x / 2 ^ 53" .
qed

lemma to_double_minus: "to_double (- x) = - to_double x"
  by (simp add: to_double_def Let_def)

lemma to_double_error: "\<bar>to_double x - x\<bar> \<le> \<bar>x\<bar> / 2 ^ 53"
proof -
  consider "x = 0" | "0 < x" | "x < 0" by linarith
  then show ?thesis
  proof cases
    case 1
    then show ?thesis by (simp add: to_double_def)
  next
    case 2
    then show ?thesis using to_double_pos(3) [of x] by simp
  next
    case 3
    then have "\<bar>to_double (- x) - (- x)\<bar> \<le> (- x) / 2 ^ 53"
      using to_double_pos(3) [of "- x"] by simp
    moreover have "\<bar>to_double (- x) - (- x)\<bar> = \<bar>to_double x - x\<bar>"
      by (simp add: to_double_minus abs_minus_commute)
    ultimately show ?thesis
      using 3 by simp
  qed
qed

lemma to_double_sign:
  "0 < to_double x \<longleftrightarrow> 0 < x" "to_double x < 0 \<longleftrightarrow> x < 0" "to_double x = 0 \<longleftrightarrow> x = 0"
proof -
  have pos: "0 < to_double x" if "0 < x"
    using that by (rule to_double_pos(2))
  have neg: "to_double x < 0" if "x < 0"
    using to_double_pos(2) [of "- x"] that by (simp add: to_double_minus)
  have zero: "to_double 0 = 0"
    by (simp add: to_double_def)
  show "0 < to_double x \<longleftrightarrow> 0 < x" "to_double x < 0 \<longleftrightarrow> x < 0" "to_double x = 0 \<longleftrightarrow> x = 0"
    using pos neg zero by (cases "x = 0"; cases "0 < x"; force)+
qed

lemma to_double_le_0: "to_double x \<le> 0 \<longleftrightarrow> x \<le> 0"
  using to_double_sign(1) [of x] by (simp add: not_less [symmetric])

text \<open>An integer below \<open>2 ^ 53\<close> in absolute value is a double.\<close>

lemma round_even_of_int: "round_even (of_int m) = m"
  by (simp add: round_even_def)

lemma to_double_of_nat_exact:
  assumes "0 < n" "n < 2 ^ 53"
  shows "to_double (of_int n) = of_int n"
proof -
  let ?x = "of_int n :: rat"
  let ?e = "ilog2 ?x"
  have x: "0 < ?x" using assms(1) by simp
  have "?x < of_int (2 ^ 53)"
    using assms(2) by (simp only: of_int_less_iff)
  then have "?x < 2 powi 53"
    by simp
  with ilog2_bounds(1) [OF x] have "(2 :: rat) powi ?e < 2 powi 53"
    by linarith
  then have "?e < 53"
    by (rule power_int_le_imp_less_exp [rotated]) simp_all
  define k where "k = nat (52 - ?e)"
  with \<open>?e < 53\<close> have e: "?e - 52 = - int k"
    by simp
  have ulp: "(2 :: rat) powi (?e - 52) = 1 / 2 ^ k"
    by (simp only: e power_int_minus_divide power_int_of_nat)
  have "?x / 2 powi (?e - 52) = of_int (n * 2 ^ k)"
    by (simp add: ulp)
  then have "round_even (?x / 2 powi (?e - 52)) = n * 2 ^ k"
    by (simp only: round_even_of_int)
  then show ?thesis
    by (simp add: to_double_pos(1) [OF x] ulp)
qed

lemma to_double_of_int:
  assumes "\<bar>n\<bar> < 2 ^ 53"
  shows "to_double (of_int n) = of_int n"
proof -
  consider "n = 0" | "0 < n" | "n < 0" by linarith
  then show ?thesis
  proof cases
    case 1
    then show ?thesis by (simp add: to_double_def)
  next
    case 2
    with assms show ?thesis by (simp add: to_double_of_nat_exact)
  next
    case 3
    with assms have "to_double (of_int (- n)) = of_int (- n)"
      by (intro to_double_of_nat_exact) simp_all
    then show ?thesis
      by (simp add: to_double_minus)
  qed
qed


subsection \<open>Percentages\<close>







subsection \<open>Team targets\<close>

lemma map_of_obj_set: "map_of (obj_set ps k v) k' = (if k' = k then Some v else map_of ps k')"
  by (induction ps) auto


lemma obj_set_fresh: "k \<notin> fst ` set ps \<Longrightarrow> obj_set ps k v = ps @ [(k, v)]"
  by (induction ps) auto







subsection \<open>CSV export\<close>

lemma replaceAll_dquote_double: "replaceAll_dquote s = double_quotes s"
  by (induction s) (simp_all add: replaceAll_dquote_def)

lemma escape_field: "escape (CStr s) = csv_field s" "escape (CNum i) = csv_field (String_of_int i)"
  by (simp_all add: escape_def csv_field_def String_of_def replaceAll_dquote_double)

lemma or0_metric: "or0 (map_of (a_metrics a) k) = metric_or_0 a k"
  by (simp add: or0_def metric_or_0_def split: option.splits)

lemma csv_header_keys: "join '','' (map fst (csv_row a)) = csv_header"
  by (simp add: csv_row_def csv_header_def)

lemma join_newline: "join [newline] (l # ls) = l @ csv_lines ls"
  by (induction ls arbitrary: l) simp_all

text \<open>
  Claim C8: the CSV export of the empty associate list is the empty string, with no
  header row.
\<close>

theorem csv_of_no_associates_is_empty:
  "buildCSVFromAssociates [] = [] \<and> toCSV [] = []"
  by (simp add: buildCSVFromAssociates_def toCSV_def)


lemma show_nat_0: "show_nat 0 = ''0''"
  by (simp add: show_nat.simps digit_char_def)

lemma toCSV_rows:
  "buildCSVFromAssociates (a # as) = csv_header @ csv_lines (map csv_line (a # as))"
proof -
  let ?line = "\<lambda>r. join '','' (map (\<lambda>h. escape (case map_of r h of None \<Rightarrow> CStr [] | Some v \<Rightarrow> v))
      (map fst (csv_row a)))"
  have line: "?line (csv_row x) = csv_line x" for x
    by (simp add: csv_row_def csv_line_def escape_field or0_metric)
  have lines: "map ?line (map csv_row xs) = map csv_line xs" for xs
    by (induction xs) (simp_all only: list.map line)
  have h: "hd (map csv_row (a # as)) = csv_row a"
    by simp
  have n: "length (map csv_row (a # as)) \<noteq> 0"
    by simp
  have "toCSV (map csv_row (a # as)) =
      join [newline] (join '','' (map fst (csv_row a)) # map ?line (map csv_row (a # as)))"
    unfolding toCSV_def Let_def h using n by (simp only: if_False)
  then show ?thesis
    by (simp only: buildCSVFromAssociates_def csv_header_keys join_newline lines)
qed

text \<open>
  Claim C7: for a non-empty list of associates the CSV export is the header row of the
  six column names followed by one line per associate, every field wrapped in double
  quotes with each embedded double quote doubled, and 0 in place of an absent metric;
  the field \<open>a, b\<close> comes out as \<open>"a, b"\<close> and the field \<open>"q"\<close> as
  \<open>"""q"""\<close>.
\<close>

theorem csv_export_quotes_every_field:
  \<open>(assocs \<noteq> [] \<longrightarrow>
      buildCSVFromAssociates assocs = csv_header @ csv_lines (map csv_line assocs)) \<and>
   (\<forall>s. escape (CStr s) = csv_field s) \<and>
   (\<forall>a k. map_of (a_metrics a) k = None \<longrightarrow> csv_field (String_of_int (metric_or_0 a k)) = ''"0"'') \<and>
   escape (CStr ''a, b'') = ''"a, b"'' \<and>
   escape (CStr ''"q"'') = ''"""q"""''\<close>
proof -
  have "buildCSVFromAssociates assocs = csv_header @ csv_lines (map csv_line assocs)"
    if "assocs \<noteq> []"
    using that toCSV_rows by (cases assocs) simp_all
  moreover have "csv_field (String_of_int (metric_or_0 a k)) = [dquote] @ ''0'' @ [dquote]"
    if "map_of (a_metrics a) k = None" for a k
    using that by (simp add: metric_or_0_def String_of_int_def show_nat_0 csv_field_def dquote_def)
  moreover have "escape (CStr ''a, b'') = [dquote] @ ''a, b'' @ [dquote]"
    by (simp add: escape_field csv_field_def dquote_def)
  moreover have "escape (CStr ([dquote] @ ''q'' @ [dquote])) = [dquote, dquote, dquote] @ ''q'' @ [dquote, dquote, dquote]"
    by (simp add: escape_field csv_field_def dquote_def)
  ultimately show ?thesis
    by (simp add: escape_field dquote_def)
qed

theorem csv_export_quotes_every_field_witness:
  \<open>[\<lparr>a_id = ''id-1'', a_name = ''Ann "Ace", Jr'', a_metrics = [(''connects'', 12)]\<rparr>] \<noteq> [] \<and>
   buildCSVFromAssociates
     [\<lparr>a_id = ''id-1'', a_name = ''Ann "Ace", Jr'', a_metrics = [(''connects'', 12)]\<rparr>] =
   ''Name,Connects,GeoData,BuyerAppointments,MarketAppraisals,ListingsGenerated'' @ [newline] @
   ''"Ann ""Ace"", Jr","12","0","0","0","0"''\<close>
proof -
  let ?a = \<open>\<lparr>a_id = ''id-1'', a_name = ''Ann "Ace", Jr'', a_metrics = [(''connects'', 12)]\<rparr>\<close>
  have ne: "[?a] \<noteq> []"
    by simp
  have "csv_header @ csv_lines (map csv_line [?a]) =
    ''Name,Connects,GeoData,BuyerAppointments,MarketAppraisals,ListingsGenerated'' @ [newline] @
      [dquote] @ ''Ann '' @ [dquote, dquote] @ ''Ace'' @ [dquote, dquote] @ '', Jr'' @ [dquote] @ '','' @
      [dquote] @ ''12'' @ [dquote] @ '','' @ [dquote] @ ''0'' @ [dquote] @ '','' @
      [dquote] @ ''0'' @ [dquote] @ '','' @ [dquote] @ ''0'' @ [dquote] @ '','' @
      [dquote] @ ''0'' @ [dquote]"
    by (simp add: csv_header_def csv_line_def csv_field_def metric_or_0_def String_of_int_def
        show_nat.simps digit_char_def dquote_def)
  with csv_export_quotes_every_field [of "[?a]"] ne show ?thesis
    by (simp add: dquote_def)
qed

subsection \<open>The leaderboard\<close>

lemma lb_compare_le: "lb_compare x y \<le> 0 \<longleftrightarrow> ranks_before x y"
  by (auto simp: lb_compare_def ranks_before_def double_sub_def to_double_le_0 Let_def)

lemma ranks_before_total: "\<not> ranks_before x y \<Longrightarrow> ranks_before y x"
  by (auto simp: ranks_before_def)

lemma ranks_before_trans: "ranks_before x y \<Longrightarrow> ranks_before y z \<Longrightarrow> ranks_before x z"
  by (auto simp: ranks_before_def)

lemma mset_insert_sorted: "mset (insert_sorted cmp x ys) = add_mset x (mset ys)"
  by (induction ys) auto

lemma set_insert_sorted: "set (insert_sorted cmp x ys) = insert x (set ys)"
  by (induction ys) auto

lemma sorted_insert_sorted:
  "sorted_wrt ranks_before ys \<Longrightarrow> sorted_wrt ranks_before (insert_sorted lb_compare x ys)"
proof (induction ys)
  case Nil
  then show ?case by simp
next
  case (Cons y ys)
  show ?case
  proof (cases "lb_compare x y \<le> 0")
    case True
    then have xy: "ranks_before x y" by (simp add: lb_compare_le)
    have "ranks_before x z" if "z \<in> set ys" for z
      using Cons.prems that xy ranks_before_trans by auto
    with xy Cons.prems True show ?thesis by auto
  next
    case False
    then have "ranks_before y x"
      by (simp add: lb_compare_le ranks_before_total)
    with Cons False show ?thesis
      by (auto simp: set_insert_sorted)
  qed
qed

lemma filter_insert_sorted:
  "filter (same_rank r) (insert_sorted lb_compare x ys) =
     (if same_rank r x then x # filter (same_rank r) ys else filter (same_rank r) ys)"
proof (induction ys)
  case Nil
  then show ?case by simp
next
  case (Cons y ys)
  show ?case
  proof (cases "lb_compare x y \<le> 0")
    case True
    then show ?thesis by simp
  next
    case False
    then have "\<not> ranks_before x y" by (simp add: lb_compare_le)
    then have "\<not> (same_rank r x \<and> same_rank r y)"
      by (auto simp: ranks_before_def same_rank_def)
    with Cons False show ?thesis by auto
  qed
qed

lemma mset_Array_sort: "mset (Array_sort cmp xs) = mset xs"
  by (induction xs) (simp_all add: Array_sort_def mset_insert_sorted)

lemma sorted_Array_sort: "sorted_wrt ranks_before (Array_sort lb_compare xs)"
  by (induction xs) (simp_all add: Array_sort_def sorted_insert_sorted)

lemma stable_Array_sort: "filter (same_rank r) (Array_sort lb_compare xs) = filter (same_rank r) xs"
  by (induction xs) (simp_all add: Array_sort_def filter_insert_sorted)

lemma foldl_add_sum: "foldl (\<lambda>acc k. acc + f k) (a :: int) ks = a + sum_list (map f ks)"
  by (induction ks arbitrary: a) simp_all

lemma progress_average: "progress (lb_item_of tgts a) = to_double (average_progress tgts a)"
  by (simp add: lb_item_of_def average_progress_def percent_of_metric_def foldl_add_sum or0_metric
      KPI_KEYS_def double_div_def)

lemma progress_close:
  "\<bar>progress (lb_item_of tgts a) - average_progress tgts a\<bar> \<le> \<bar>average_progress tgts a\<bar> / 2 ^ 53"
  by (simp only: progress_average to_double_error)

text \<open>
  Claim C5: every associate's progress is the average of the five percentages, as the
  division of their sum by 5 gives it in doubles (within the fraction \<open>2 ^ -53\<close> of
  the exact average); the leaderboard is the first five entries of the list of all
  entries ranked by listings, larger first, then by progress, larger first, where
  entries equal on both keep their original order.
\<close>

theorem leaderboard_ranks_top_five:
  "leaderboard tgts assocs =
     take 5 (Array_sort lb_compare (map (lb_item_of tgts) assocs)) \<and>
   mset (Array_sort lb_compare (map (lb_item_of tgts) assocs)) =
     mset (map (lb_item_of tgts) assocs) \<and>
   sorted_wrt ranks_before (Array_sort lb_compare (map (lb_item_of tgts) assocs)) \<and>
   (\<forall>r. filter (same_rank r) (Array_sort lb_compare (map (lb_item_of tgts) assocs)) =
        filter (same_rank r) (map (lb_item_of tgts) assocs)) \<and>
   (\<forall>a. progress (lb_item_of tgts a) = double_div (of_int (\<Sum>k\<leftarrow>KPI_KEYS. pct (metric_or_0 a k) (map_of tgts k))) 5 \<and>
        progress (lb_item_of tgts a) = to_double (average_progress tgts a) \<and>
        \<bar>progress (lb_item_of tgts a) - average_progress tgts a\<bar> \<le> \<bar>average_progress tgts a\<bar> / 2 ^ 53 \<and>
        listings (lb_item_of tgts a) = metric_or_0 a ''listingsGenerated'' \<and>
        lb_id (lb_item_of tgts a) = a_id a \<and> lb_name (lb_item_of tgts a) = a_name a) \<and>
   length (leaderboard tgts assocs) \<le> 5"
proof -
  have fields: "listings (lb_item_of tgts a) = metric_or_0 a ''listingsGenerated'' \<and>
        lb_id (lb_item_of tgts a) = a_id a \<and> lb_name (lb_item_of tgts a) = a_name a" for a
    by (simp add: lb_item_of_def or0_metric)
  have quotient: "progress (lb_item_of tgts a) =
      double_div (of_int (\<Sum>k\<leftarrow>KPI_KEYS. pct (metric_or_0 a k) (map_of tgts k))) 5" for a
    by (simp add: lb_item_of_def foldl_add_sum or0_metric KPI_KEYS_def)
  have each: "\<forall>a. progress (lb_item_of tgts a) = double_div (of_int (\<Sum>k\<leftarrow>KPI_KEYS. pct (metric_or_0 a k) (map_of tgts k))) 5 \<and>
        progress (lb_item_of tgts a) = to_double (average_progress tgts a) \<and>
        \<bar>progress (lb_item_of tgts a) - average_progress tgts a\<bar> \<le> \<bar>average_progress tgts a\<bar> / 2 ^ 53 \<and>
        listings (lb_item_of tgts a) = metric_or_0 a ''listingsGenerated'' \<and>
        lb_id (lb_item_of tgts a) = a_id a \<and> lb_name (lb_item_of tgts a) = a_name a"
    using fields quotient progress_average progress_close by blast
  have top: "leaderboard tgts assocs = take 5 (Array_sort lb_compare (map (lb_item_of tgts) assocs))"
    by (simp add: leaderboard_def)
  have perm: "mset (Array_sort lb_compare (map (lb_item_of tgts) assocs)) =
      mset (map (lb_item_of tgts) assocs)"
    by (rule mset_Array_sort)
  have ranked: "sorted_wrt ranks_before (Array_sort lb_compare (map (lb_item_of tgts) assocs))"
    by (rule sorted_Array_sort)
  have stable: "\<forall>r. filter (same_rank r) (Array_sort lb_compare (map (lb_item_of tgts) assocs)) =
      filter (same_rank r) (map (lb_item_of tgts) assocs)"
    by (simp add: stable_Array_sort)
  have five: "length (leaderboard tgts assocs) \<le> 5"
    by (simp add: leaderboard_def)
  from top perm ranked stable each five show ?thesis
    by (intro conjI) assumption+
qed

theorem leaderboard_ranks_top_five_witness:
  "leaderboard DEFAULT_TARGETS seeded_associates =
     [\<lparr>lb_id = ''id-2'', lb_name = ''Bianca'', listings = 1, progress = to_double (249 / 5)\<rparr>,
      \<lparr>lb_id = ''id-1'', lb_name = ''Alex'', listings = 0, progress = to_double (66 / 5)\<rparr>,
      \<lparr>lb_id = ''id-3'', lb_name = ''Chris'', listings = 0, progress = to_double (34 / 5)\<rparr>] \<and>
   leaderboard DEFAULT_TARGETS
     [\<lparr>a_id = ''a'', a_name = ''A'', a_metrics = [(''connects'', 116)]\<rparr>,
      \<lparr>a_id = ''b'', a_name = ''B'', a_metrics = [(''connects'', 120)]\<rparr>] =
     [\<lparr>lb_id = ''b'', lb_name = ''B'', listings = 0, progress = 3\<rparr>,
      \<lparr>lb_id = ''a'', lb_name = ''A'', listings = 0,
        progress = 3152519739159347 / 1125899906842624\<rparr>] \<and>
   sorted_wrt ranks_before (Array_sort lb_compare (map (lb_item_of DEFAULT_TARGETS) seeded_associates)) \<and>
   length (leaderboard DEFAULT_TARGETS seeded_associates) \<le> 5"
proof -
  have "take 5 (Array_sort lb_compare (map (lb_item_of DEFAULT_TARGETS) seeded_associates)) =
     [\<lparr>lb_id = ''id-2'', lb_name = ''Bianca'', listings = 1, progress = to_double (249 / 5)\<rparr>,
      \<lparr>lb_id = ''id-1'', lb_name = ''Alex'', listings = 0, progress = to_double (66 / 5)\<rparr>,
      \<lparr>lb_id = ''id-3'', lb_name = ''Chris'', listings = 0, progress = to_double (34 / 5)\<rparr>]"
    by code_simp
  moreover have "take 5 (Array_sort lb_compare (map (lb_item_of DEFAULT_TARGETS)
     [\<lparr>a_id = ''a'', a_name = ''A'', a_metrics = [(''connects'', 116)]\<rparr>,
      \<lparr>a_id = ''b'', a_name = ''B'', a_metrics = [(''connects'', 120)]\<rparr>])) =
     [\<lparr>lb_id = ''b'', lb_name = ''B'', listings = 0, progress = 3\<rparr>,
      \<lparr>lb_id = ''a'', lb_name = ''A'', listings = 0,
        progress = 3152519739159347 / 1125899906842624\<rparr>]"
    by code_simp
  moreover note leaderboard_ranks_top_five [of DEFAULT_TARGETS seeded_associates]
    leaderboard_ranks_top_five [of DEFAULT_TARGETS
     "[\<lparr>a_id = ''a'', a_name = ''A'', a_metrics = [(''connects'', 116)]\<rparr>,
       \<lparr>a_id = ''b'', a_name = ''B'', a_metrics = [(''connects'', 120)]\<rparr>]"]
  ultimately show ?thesis
    by simp
qed

subsection \<open>JSON import\<close>

lemma truthy_prop_Some: "truthy_prop x \<longleftrightarrow> (\<exists>v. x = Some v \<and> truthy v)"
  by (cases x) (simp_all add: truthy_prop_def)

text \<open>
  Claim C2, as the code has it: the import succeeds exactly when the text parses as an
  object whose \<open>month\<close>, \<open>targets\<close> and \<open>associates\<close> properties are all
  present and truthy; it then replaces the month, the targets and the associates by the
  imported values (and closes and clears the import dialog); otherwise it shows the
  alert "Import failed" and leaves the state as it was.
\<close>

theorem importJSON_needs_truthy_keys:
  "(snd (importParsed r st) = None \<longleftrightarrow>
      (\<exists>ps m t a. r = Inr (JObj ps) \<and> map_of ps ''month'' = Some m \<and> truthy m \<and>
         map_of ps ''targets'' = Some t \<and> truthy t \<and>
         map_of ps ''associates'' = Some a \<and> truthy a)) \<and>
   (\<forall>ps m t a. r = Inr (JObj ps) \<and> map_of ps ''month'' = Some m \<and> truthy m \<and>
         map_of ps ''targets'' = Some t \<and> truthy t \<and>
         map_of ps ''associates'' = Some a \<and> truthy a \<longrightarrow>
      importParsed r st =
        (st\<lparr>month := m, targets := t, associates := a, importVisible := False, importText := []\<rparr>, None)) \<and>
   (snd (importParsed r st) \<noteq> None \<longrightarrow>
      fst (importParsed r st) = st \<and>
      (\<exists>msg. snd (importParsed r st) = Some (''Import failed'', msg))) \<and>
   importJSON st = importParsed (JSON_parse (importText st)) st"
proof -
  have success: "importParsed r st =
        (st\<lparr>month := m, targets := t, associates := a, importVisible := False, importText := []\<rparr>, None)"
    if "r = Inr (JObj ps)" "map_of ps ''month'' = Some m" "truthy m"
       "map_of ps ''targets'' = Some t" "truthy t" "map_of ps ''associates'' = Some a" "truthy a"
    for ps m t a
    using that by (simp add: importParsed_def truthy_prop_def)
  have failure: "fst (importParsed r st) = st \<and>
      (\<exists>msg. snd (importParsed r st) = Some (''Import failed'', msg))"
    if "snd (importParsed r st) \<noteq> None"
    using that by (auto simp: importParsed_def split: sum.splits if_splits)
  have only: "\<exists>ps m t a. r = Inr (JObj ps) \<and> map_of ps ''month'' = Some m \<and> truthy m \<and>
         map_of ps ''targets'' = Some t \<and> truthy t \<and>
         map_of ps ''associates'' = Some a \<and> truthy a"
    if none: "snd (importParsed r st) = None"
  proof (cases r)
    case (Inl msg)
    with none show ?thesis by (simp add: importParsed_def)
  next
    case (Inr obj)
    with none have keys: "truthy_prop (get_prop obj ''month'')" "truthy_prop (get_prop obj ''targets'')"
      "truthy_prop (get_prop obj ''associates'')"
      by (auto simp: importParsed_def split: if_splits)
    then obtain ps where "obj = JObj ps"
      by (cases obj) (simp_all add: truthy_prop_def)
    with keys Inr show ?thesis
      by (auto simp: truthy_prop_Some)
  qed
  show ?thesis
    using success failure only by (auto simp: importJSON_def)
qed


theorem importJSON_needs_truthy_keys_witness:
  "JSON_parse (importText import_ok_state) =
     Inr (JObj [(''month'', JStr ''2025-09''), (''targets'', JObj [(''connects'', JNum (Fin 5))]),
                (''associates'', JArr [])]) \<and>
   importJSON import_ok_state =
     (import_ok_state\<lparr>month := JStr ''2025-09'', targets := JObj [(''connects'', JNum (Fin 5))],
        associates := JArr [], importVisible := False, importText := []\<rparr>, None)"
proof -
  have p: "JSON_parse (importText import_ok_state) =
     Inr (JObj [(''month'', JStr ''2025-09''), (''targets'', JObj [(''connects'', JNum (Fin 5))]),
                (''associates'', JArr [])])"
    by code_simp
  show ?thesis
    using importJSON_needs_truthy_keys [of "JSON_parse (importText import_ok_state)" import_ok_state] p
    by simp
qed

text \<open>
  The claim as stated fails when a key is present with a falsy value: with the month
  present as the empty string the import is refused as "missing keys".
\<close>

theorem importJSON_rejects_present_empty_month:
  "JSON_parse (importText import_empty_month_state) =
     Inr (JObj [(''month'', JStr []), (''targets'', JObj [(''connects'', JNum (Fin 5))]),
                (''associates'', JArr [])]) \<and>
   importJSON import_empty_month_state =
     (import_empty_month_state, Some (''Import failed'', ''JSON missing keys {month, targets, associates}''))"
  by code_simp


subsection \<open>The metrics stay non-negative\<close>

lemma metrics_nonneg_object: "metrics_nonneg a \<Longrightarrow> \<exists>ps. a = JObj ps"
  by (cases a) (simp_all add: metrics_nonneg_def)

lemma map_throwing_list_all:
  assumes "\<And>x y. P x \<Longrightarrow> f x = Inr y \<Longrightarrow> P y"
  shows "list_all P xs \<Longrightarrow> map_throwing f xs = Inr ys \<Longrightarrow> list_all P ys"
  using assms by (induction xs arbitrary: ys) (auto split: sum.splits)

lemma map_throwing_returns:
  assumes "\<And>x. P x \<Longrightarrow> \<exists>y. f x = Inr y"
  shows "list_all P xs \<Longrightarrow> \<exists>ys. map_throwing f xs = Inr ys"
  using assms by (induction xs) (fastforce split: sum.splits)+

lemma filter_throwing_list_all:
  "list_all P xs \<Longrightarrow> filter_throwing f xs = Inr ys \<Longrightarrow> list_all P ys"
  by (induction xs arbitrary: ys) (auto split: sum.splits if_splits)

lemma filter_throwing_returns:
  assumes "\<And>x. P x \<Longrightarrow> \<exists>b. f x = Inr b"
  shows "list_all P xs \<Longrightarrow> \<exists>ys. filter_throwing f xs = Inr ys"
  using assms by (induction xs) (fastforce split: sum.splits)+

lemma nonneg_number_JNum: "\<not> nan_or_negative v \<Longrightarrow> nonneg_number (Some (JNum v))"
  by (cases v) simp_all

lemma nonneg_after_set:
  assumes "\<not> nan_or_negative v" "nonneg_number (map_of qs k)"
  shows "nonneg_number (map_of (obj_set qs key (JNum v)) k)"
  using assms by (simp add: map_of_obj_set nonneg_number_JNum)

lemma update_associate_nonneg:
  assumes "\<not> nan_or_negative v" "metrics_nonneg a" "update_associate ident key v a = Inr b"
  shows "metrics_nonneg b"
proof -
  from assms(2) obtain ps where a: "a = JObj ps"
    using metrics_nonneg_object by blast
  from assms(2) a obtain m where m: "map_of ps ''metrics'' = Some m"
    and all: "list_all (\<lambda>k. nonneg_number (get_prop m k)) KPI_KEYS"
    by (auto simp: metrics_nonneg_def split: option.splits)
  from all obtain qs where qs: "m = JObj qs"
    by (cases m) (simp_all add: KPI_KEYS_def)
  show ?thesis
  proof (cases "map_of ps ''id'' = Some (JStr ident)")
    case True
    with assms(3) a m qs have "b = JObj (obj_set ps ''metrics'' (JObj (obj_set qs key (JNum v))))"
      by simp
    moreover have "list_all (\<lambda>k. nonneg_number (map_of (obj_set qs key (JNum v)) k)) KPI_KEYS"
      using all qs assms(1) by (simp add: list_all_iff nonneg_after_set)
    ultimately show ?thesis
      by (simp add: metrics_nonneg_def map_of_obj_set)
  next
    case False
    with assms(3) a have "b = a" by simp
    with assms(2) show ?thesis by simp
  qed
qed

lemma update_associate_returns: "metrics_nonneg a \<Longrightarrow> \<exists>b. update_associate ident key v a = Inr b"
  using metrics_nonneg_object [of a] by auto

lemma other_id_returns: "metrics_nonneg a \<Longrightarrow> \<exists>b. other_id ident a = Inr b"
  using metrics_nonneg_object [of a] by auto

lemma zero_metrics_nonneg:
  "metrics_nonneg (JObj [(''id'', JStr i), (''name'', JStr n), (''metrics'', zero_metrics)])"
  by (simp add: metrics_nonneg_def zero_metrics_def KPI_KEYS_def)

lemma invariant_array: "metrics_invariant st \<Longrightarrow> \<exists>xs. associates st = JArr xs \<and> list_all metrics_nonneg xs"
  by (cases "associates st") (simp_all add: metrics_invariant_def)

text \<open>
  Claim C10, as the code has it: from a state whose associates all have five
  non-negative metrics, \<open>addAssociate\<close>, \<open>updateMetric\<close> and
  \<open>deleteAssociate\<close> return a state that has them too, and \<open>resetMonth\<close>
  yields one; \<open>addAssociate\<close> appends an associate whose five metrics are 0, and
  \<open>updateMetric\<close> with \<open>NaN\<close> or a negative number changes nothing.
\<close>

theorem state_operations_keep_metrics_nonneg:
  "(metrics_invariant st \<longrightarrow>
      (\<exists>st'. addAssociate new_id st = Inr st' \<and> metrics_invariant st') \<and>
      (\<exists>st'. updateMetric ident key v st = Inr st' \<and> metrics_invariant st') \<and>
      (\<exists>st'. deleteAssociate ident st = Inr st' \<and> metrics_invariant st')) \<and>
   (trim (newName st) \<noteq> [] \<and> associates st = JArr xs \<longrightarrow>
      addAssociate new_id st =
        Inr (st\<lparr>associates :=
                  JArr (xs @ [JObj [(''id'', JStr new_id), (''name'', JStr (trim (newName st))),
                                    (''metrics'', zero_metrics)]]),
                newName := []\<rparr>)) \<and>
   list_all (\<lambda>k. get_prop zero_metrics k = Some (JNum (Fin 0))) KPI_KEYS \<and>
   (nan_or_negative v \<longrightarrow> updateMetric ident key v st = Inr st) \<and>
   metrics_invariant (resetMonth st)"
proof -
  have add: "\<exists>st'. addAssociate new_id st = Inr st' \<and> metrics_invariant st'" if inv: "metrics_invariant st"
  proof -
    from invariant_array [OF inv] obtain ys where ys: "associates st = JArr ys" "list_all metrics_nonneg ys"
      by blast
    show ?thesis
    proof (cases "trim (newName st) = []")
      case True
      with inv show ?thesis by (simp add: addAssociate_def)
    next
      case False
      with ys show ?thesis
        by (simp add: addAssociate_def metrics_invariant_def zero_metrics_nonneg)
    qed
  qed
  have upd: "\<exists>st'. updateMetric ident key v st = Inr st' \<and> metrics_invariant st'" if inv: "metrics_invariant st"
  proof (cases "nan_or_negative v")
    case True
    with inv show ?thesis by (simp add: updateMetric_def)
  next
    case False
    from invariant_array [OF inv] obtain ys where ys: "associates st = JArr ys" "list_all metrics_nonneg ys"
      by blast
    from map_throwing_returns [of metrics_nonneg "update_associate ident key v" ys] ys(2)
    obtain zs where zs: "map_throwing (update_associate ident key v) ys = Inr zs"
      using update_associate_returns by blast
    have "list_all metrics_nonneg zs"
      using map_throwing_list_all [of metrics_nonneg "update_associate ident key v" ys zs]
        update_associate_nonneg [OF False] ys(2) zs by blast
    with False ys zs show ?thesis
      by (simp add: updateMetric_def metrics_invariant_def)
  qed
  have del: "\<exists>st'. deleteAssociate ident st = Inr st' \<and> metrics_invariant st'" if inv: "metrics_invariant st"
  proof -
    from invariant_array [OF inv] obtain ys where ys: "associates st = JArr ys" "list_all metrics_nonneg ys"
      by blast
    from filter_throwing_returns [of metrics_nonneg "other_id ident" ys] ys(2)
    obtain zs where zs: "filter_throwing (other_id ident) ys = Inr zs"
      using other_id_returns by blast
    have "list_all metrics_nonneg zs"
      using filter_throwing_list_all [OF ys(2) zs] .
    with ys zs show ?thesis
      by (simp add: deleteAssociate_def metrics_invariant_def)
  qed
  have zero: "list_all (\<lambda>k. get_prop zero_metrics k = Some (JNum (Fin 0))) KPI_KEYS"
    by (simp add: zero_metrics_def KPI_KEYS_def)
  have reset: "metrics_invariant (resetMonth st)"
    by (simp add: resetMonth_def metrics_invariant_def)
  show ?thesis
    using add upd del zero reset by (simp add: addAssociate_def updateMetric_def)
qed


theorem state_operations_keep_metrics_nonneg_witness:
  "metrics_invariant team_state \<and>
   (\<exists>st'. addAssociate ''id-2'' team_state = Inr st' \<and> metrics_invariant st') \<and>
   (\<exists>st'. updateMetric ''id-1'' ''connects'' (Fin 7) team_state = Inr st' \<and> metrics_invariant st') \<and>
   (\<exists>st'. deleteAssociate ''id-1'' team_state = Inr st' \<and> metrics_invariant st') \<and>
   nan_or_negative NaN \<and> updateMetric ''id-1'' ''connects'' NaN team_state = Inr team_state \<and>
   nan_or_negative (Fin (- 3)) \<and> updateMetric ''id-1'' ''connects'' (Fin (- 3)) team_state = Inr team_state"
proof -
  have inv: "metrics_invariant team_state"
    by code_simp
  show ?thesis
    using inv
      state_operations_keep_metrics_nonneg [of team_state "''id-2''" "''id-1''" "''connects''" "Fin 7"]
      state_operations_keep_metrics_nonneg [of team_state "''id-2''" "''id-1''" "''connects''" NaN]
      state_operations_keep_metrics_nonneg [of team_state "''id-2''" "''id-1''" "''connects''" "Fin (- 3)"]
    by simp
qed

text \<open>
  The claim as stated fails for the import: it stores the imported associates as they
  are, a negative metric included.
\<close>

theorem importJSON_stores_negative_metric:
  "metrics_invariant team_state \<and>
   importJSON team_state =
     (team_state\<lparr>month := JStr ''2025-08'',
        targets := JObj [(''connects'', JNum (Fin 800))],
        associates :=
          JArr [JObj [(''id'', JStr ''id-1''), (''name'', JStr ''Alex''),
                      (''metrics'',
                       JObj [(''connects'', JNum (Fin (- 5))), (''geoData'', JNum (Fin 10)),
                             (''buyerAppointments'', JNum (Fin 3)), (''marketAppraisals'', JNum (Fin 4)),
                             (''listingsGenerated'', JNum (Fin 0))])]],
        importVisible := False, importText := []\<rparr>, None) \<and>
   \<not> metrics_invariant (fst (importJSON team_state))"
  by code_simp

subsection \<open>Decimal digits\<close>

lemma less_10_cases:
  "d < 10 \<Longrightarrow> d = 0 \<or> d = 1 \<or> d = 2 \<or> d = 3 \<or> d = 4 \<or> d = 5 \<or> d = 6 \<or> d = 7 \<or> d = 8 \<or> d = (9 :: nat)"
  by arith

lemma digit_char_props:
  assumes "d < 10"
  shows "is_digit (digit_char d)" "digit_val (digit_char d) = d" "digit_char d \<noteq> CHR ''-''"
    "digit_char d = CHR ''0'' \<longleftrightarrow> d = 0"
  using less_10_cases [OF assms]
  by (auto simp: digit_char_def is_digit_def digit_val_def)

lemma show_nat_nonempty: "show_nat n \<noteq> []"
  by (subst show_nat.simps) simp

lemma show_nat_digits: "c \<in> set (show_nat n) \<Longrightarrow> is_digit c \<and> c \<noteq> CHR ''-''"
proof (induction n rule: show_nat.induct)
  case (1 n)
  show ?case
  proof (cases "n < 10")
    case True
    with "1.prems" show ?thesis
      by (subst (asm) show_nat.simps) (simp add: digit_char_props)
  next
    case False
    with "1.prems" have "c \<in> set (show_nat (n div 10)) \<or> c = digit_char (n mod 10)"
      by (subst (asm) show_nat.simps) auto
    with "1.IH" False show ?thesis
      by (auto simp: digit_char_props)
  qed
qed

lemma digits_val_snoc: "digits_val (ds @ [c]) = 10 * digits_val ds + digit_val c"
  by (simp add: digits_val_def)

lemma digits_val_show_nat: "digits_val (show_nat n) = n"
proof (induction n rule: show_nat.induct)
  case (1 n)
  show ?case
  proof (cases "n < 10")
    case True
    then show ?thesis
      by (subst show_nat.simps) (simp add: digits_val_def digit_char_props)
  next
    case False
    with "1.IH" show ?thesis
      by (subst show_nat.simps) (simp add: digits_val_snoc digit_char_props)
  qed
qed

lemma show_nat_inj: "show_nat a = show_nat b \<Longrightarrow> a = b"
  by (metis digits_val_show_nat)

lemma hd_show_nat: "hd (show_nat n) = CHR ''0'' \<Longrightarrow> n = 0"
proof (induction n rule: show_nat.induct)
  case (1 n)
  show ?case
  proof (cases "n < 10")
    case True
    with "1.prems" show ?thesis
      by (subst (asm) show_nat.simps) (simp add: digit_char_props)
  next
    case False
    with "1.prems" have "hd (show_nat (n div 10)) = CHR ''0''"
      by (subst (asm) show_nat.simps) (simp add: show_nat_nonempty)
    with "1.IH" False have "n div 10 = 0" by simp
    with False show ?thesis by simp
  qed
qed

lemma show_nat_one_digit: "show_nat 0 = ''0''"
  by (subst show_nat.simps) (simp add: digit_char_def)

subsection \<open>Identifiers\<close>

lemma split_at_separator:
  assumes "a @ c # x = b @ c # y" "c \<notin> set a" "c \<notin> set b"
  shows "a = b \<and> x = y"
proof -
  have "takeWhile (\<lambda>z. z \<noteq> c) (a @ c # x) = a" "takeWhile (\<lambda>z. z \<noteq> c) (b @ c # y) = b"
    using assms(2,3) by (auto simp: takeWhile_tail)
  with assms(1) have "a = b" by simp
  with assms(1) show ?thesis by simp
qed

text \<open>
  Claim C9, as the code has it: without a UUID generator every identifier starts with
  the literal \<open>id-\<close>, and two identifiers are equal exactly when the eight characters
  taken from the random draws and the two timestamps are equal; with a UUID generator
  two identifiers are equal exactly when the two UUIDs are.
\<close>

theorem genId_distinct_when_draws_differ:
  "(no_uuid e1 \<longrightarrow> take 3 (genId e1) = ''id-'') \<and>
   (no_uuid e1 \<and> no_uuid e2 \<and> CHR ''-'' \<notin> set (slice 2 10 (random36 e1)) \<and>
      CHR ''-'' \<notin> set (slice 2 10 (random36 e2)) \<longrightarrow>
      (genId e1 = genId e2 \<longleftrightarrow>
         slice 2 10 (random36 e1) = slice 2 10 (random36 e2) \<and> date_now e1 = date_now e2)) \<and>
   (crypto_randomUUID e1 = RandomUUID u1 \<and> crypto_randomUUID e2 = RandomUUID u2 \<longrightarrow>
      (genId e1 = genId e2 \<longleftrightarrow> u1 = u2))"
proof -
  have fallback: "genId e = ''id-'' @ slice 2 10 (random36 e) @ ''-'' @ show_nat (date_now e)"
    if "no_uuid e" for e
    using that by (simp add: genId_def no_uuid_def Let_def split: uuid_source.splits)
  have "slice 2 10 (random36 e1) = slice 2 10 (random36 e2) \<and> date_now e1 = date_now e2"
    if "no_uuid e1" "no_uuid e2" "CHR ''-'' \<notin> set (slice 2 10 (random36 e1))"
      "CHR ''-'' \<notin> set (slice 2 10 (random36 e2))" "genId e1 = genId e2"
  proof -
    from that(1,2,5) have "slice 2 10 (random36 e1) @ CHR ''-'' # show_nat (date_now e1) =
        slice 2 10 (random36 e2) @ CHR ''-'' # show_nat (date_now e2)"
      by (simp add: fallback)
    from split_at_separator [OF this that(3,4)] show ?thesis
      by (auto dest: show_nat_inj)
  qed
  moreover have "genId e1 = genId e2"
    if "no_uuid e1" "no_uuid e2" "slice 2 10 (random36 e1) = slice 2 10 (random36 e2)"
      "date_now e1 = date_now e2"
    using that by (simp add: fallback)
  moreover have "take 3 (genId e1) = ''id-''" if "no_uuid e1"
    using that by (simp add: fallback)
  ultimately show ?thesis
    by (auto simp: genId_def)
qed

theorem genId_distinct_when_draws_differ_witness:
  "no_uuid \<lparr>crypto_randomUUID = NoRandomUUID, random36 = ''0.4fzyo82mvyr'', date_now = 1700000000000\<rparr> \<and>
   no_uuid \<lparr>crypto_randomUUID = RandomUUID_throws, random36 = ''0.9k1x'', date_now = 1700000000000\<rparr> \<and>
   genId \<lparr>crypto_randomUUID = NoRandomUUID, random36 = ''0.4fzyo82mvyr'', date_now = 1700000000000\<rparr> \<noteq>
   genId \<lparr>crypto_randomUUID = RandomUUID_throws, random36 = ''0.9k1x'', date_now = 1700000000000\<rparr> \<and>
   take 3 (genId \<lparr>crypto_randomUUID = NoRandomUUID, random36 = ''0.4fzyo82mvyr'', date_now = 1700000000000\<rparr>)
     = ''id-''"
  using genId_distinct_when_draws_differ
    [of "\<lparr>crypto_randomUUID = NoRandomUUID, random36 = ''0.4fzyo82mvyr'', date_now = 1700000000000\<rparr>"
        "\<lparr>crypto_randomUUID = RandomUUID_throws, random36 = ''0.9k1x'', date_now = 1700000000000\<rparr>"]
  by (simp add: no_uuid_def slice_def)

text \<open>
  The claim as stated fails: two calls in the same millisecond whose random draws agree
  on the eight characters kept return the same identifier.
\<close>

theorem genId_same_id_twice:
  "genId \<lparr>crypto_randomUUID = NoRandomUUID, random36 = ''0.4fzyo82mvyr'', date_now = 1700000000000\<rparr> =
   genId \<lparr>crypto_randomUUID = NoRandomUUID, random36 = ''0.4fzyo82mzzz'', date_now = 1700000000000\<rparr>"
  by (simp add: genId_def slice_def)


subsection \<open>The background email task\<close>

lemma window_is_clock_window:
  assumes "0 \<le> h" "h \<le> 23" "0 \<le> hh" "hh \<le> 23" "0 \<le> mm" "mm \<le> 59"
    "\<not> (h = 0 \<and> 1410 \<le> hh * 60 + mm)"
  shows "withinWindow h hh mm \<longleftrightarrow> within_30_minutes h hh mm"
  using assms unfolding withinWindow_def within_30_minutes_def clock_distance_def Let_def
  by auto

text \<open>
  At send hour 0 the code's window does not reach back over midnight: 23:45 is 15
  minutes before the send hour and is not in the window of the code.
\<close>

lemma window_misses_midnight: "within_30_minutes 0 23 45 \<and> \<not> withinWindow 0 23 45"
  by (simp add: withinWindow_def within_30_minutes_def clock_distance_def)

lemma email_task_read_error:
  assumes "item_store env = Throws \<or>
      (\<exists>raw. item_store env = Returns raw \<and> read_month_state raw (current_month env) = Throws) \<or>
      item_email_to env = Throws \<or> item_webhook env = Throws \<or> item_send_hour env = Throws"
  shows "email_task snapshot_text csv_text env = (Failed, [])"
proof (cases "item_store env")
  case Throws
  then show ?thesis by (simp add: email_task_def on_return_def)
next
  case (Returns raw)
  note store = this
  show ?thesis
  proof (cases "read_month_state raw (current_month env)")
    case Throws
    with store show ?thesis by (simp add: email_task_def on_return_def)
  next
    case (Returns state)
    with store assms have "item_email_to env = Throws \<or> item_webhook env = Throws \<or> item_send_hour env = Throws"
      by auto
    with store Returns show ?thesis
      by (cases "item_email_to env"; cases "item_webhook env"; cases "item_send_hour env")
        (simp_all add: email_task_def on_return_def)
  qed
qed

text \<open>
  Claim C6, as the code has it: a run in which a storage read or the parse of the store
  throws is a failure, whatever the time. When the stored items are read without error
  (send hour 0 to 23, a time of day, and not the half hour before midnight at send hour
  0), the task outside the 30 minute window returns \<open>NoData\<close> and sends nothing;
  inside the window, once the summary is rendered, it posts it to the webhook when one
  is configured (\<open>NewData\<close> or \<open>Failed\<close> as the webhook answers) and returns
  \<open>NoData\<close> without sending when none is.
\<close>

theorem email_task_sends_within_window:
  "((item_store env = Throws \<or>
      (\<exists>raw. item_store env = Returns raw \<and> read_month_state raw (current_month env) = Throws) \<or>
      item_email_to env = Throws \<or> item_webhook env = Throws \<or> item_send_hour env = Throws) \<longrightarrow>
      email_task snapshot_text csv_text env = (Failed, [])) \<and>
   (item_store env = Returns raw \<and> read_month_state raw (current_month env) = Returns state \<and>
    item_email_to env = Returns to_item \<and> item_webhook env = Returns webhook \<and>
    item_send_hour env = Returns hour_item \<and>
    h = (case hour_item of None \<Rightarrow> DEFAULT_SEND_HOUR | Some x \<Rightarrow> x) \<and> 0 \<le> h \<and> h \<le> 23 \<and>
    0 \<le> now_hours env \<and> now_hours env \<le> 23 \<and> 0 \<le> now_minutes env \<and> now_minutes env \<le> 59 \<and>
    \<not> (h = 0 \<and> 1410 \<le> now_hours env * 60 + now_minutes env) \<longrightarrow>
      (\<not> within_30_minutes h (now_hours env) (now_minutes env) \<longrightarrow>
         email_task snapshot_text csv_text env = (NoData, [])) \<and>
      (within_30_minutes h (now_hours env) (now_minutes env) \<and>
       snapshot_text (current_month env) (get_prop state ''associates'') (get_prop state ''targets'')
         = Returns summary \<and>
       csv_text (get_prop state ''associates'') = Returns sheet \<longrightarrow>
         email_task snapshot_text csv_text env =
           (if or_default webhook [] = [] then (NoData, [])
            else
              ((case fetch_ok env of Throws \<Rightarrow> Failed
                | Returns ok \<Rightarrow> if ok then NewData else Failed),
               [\<lparr>p_url = or_default webhook [], p_to = or_default to_item DEFAULT_EMAIL,
                  p_subject = ''Daily KPI '' @ en_dash @ '' '' @ current_month env,
                  p_text = summary, p_csv = sheet, p_month = current_month env\<rparr>]))))"
proof -
  have "withinWindow h (now_hours env) (now_minutes env) \<longleftrightarrow>
      within_30_minutes h (now_hours env) (now_minutes env)"
    if "0 \<le> h" "h \<le> 23" "0 \<le> now_hours env" "now_hours env \<le> 23" "0 \<le> now_minutes env"
      "now_minutes env \<le> 59" "\<not> (h = 0 \<and> 1410 \<le> now_hours env * 60 + now_minutes env)"
    using that by (rule window_is_clock_window)
  then show ?thesis
    using email_task_read_error [of env snapshot_text csv_text]
    by (auto simp: email_task_def on_return_def Let_def split: outcome.splits)
qed

theorem email_task_sends_within_window_witness:
  "item_store evening_env = Returns None \<and>
   read_month_state None (current_month evening_env) = Returns default_month_state \<and>
   item_email_to evening_env = Returns None \<and>
   item_webhook evening_env = Returns (Some ''https://example.org/hook'') \<and>
   item_send_hour evening_env = Returns (Some 18) \<and>
   within_30_minutes 18 (now_hours evening_env) (now_minutes evening_env) \<and>
   email_task (\<lambda>m a t. Returns ''summary'') (\<lambda>a. Returns ''Name,Connects'') evening_env =
     (NewData,
      [\<lparr>p_url = ''https://example.org/hook'', p_to = DEFAULT_EMAIL,
         p_subject = ''Daily KPI '' @ en_dash @ '' 2025-08'',
         p_text = ''summary'', p_csv = ''Name,Connects'', p_month = ''2025-08''\<rparr>]) \<and>
   item_store (evening_env\<lparr>item_store := Throws\<rparr>) = Throws \<and>
   email_task (\<lambda>m a t. Returns ''summary'') (\<lambda>a. Returns ''Name,Connects'')
     (evening_env\<lparr>item_store := Throws\<rparr>) = (Failed, [])"
proof -
  have r: "read_month_state None (current_month evening_env) = Returns default_month_state"
    by (simp add: read_month_state_def or_default_def evening_env_def)
  have w: "within_30_minutes 18 (now_hours evening_env) (now_minutes evening_env)"
    by (simp add: within_30_minutes_def clock_distance_def evening_env_def)
  have e: "item_store evening_env = Returns None" "item_email_to evening_env = Returns None"
    "item_webhook evening_env = Returns (Some ''https://example.org/hook'')"
    "item_send_hour evening_env = Returns (Some 18)"
    "now_hours evening_env = 18" "now_minutes evening_env = 10" "current_month evening_env = ''2025-08''"
    "fetch_ok evening_env = Returns True"
    by (simp_all add: evening_env_def)
  have sent: "email_task (\<lambda>m a t. Returns ''summary'') (\<lambda>a. Returns ''Name,Connects'') evening_env =
     (NewData,
      [\<lparr>p_url = ''https://example.org/hook'', p_to = DEFAULT_EMAIL,
         p_subject = ''Daily KPI '' @ en_dash @ '' 2025-08'',
         p_text = ''summary'', p_csv = ''Name,Connects'', p_month = ''2025-08''\<rparr>])"
    using email_task_sends_within_window [where env = evening_env and raw = None
        and state = default_month_state and to_item = None
        and webhook = "Some ''https://example.org/hook''" and hour_item = "Some 18" and h = 18
        and snapshot_text = "\<lambda>m a t. Returns ''summary''" and summary = "''summary''"
        and csv_text = "\<lambda>a. Returns ''Name,Connects''" and sheet = "''Name,Connects''"]
      r w e
    by (simp add: or_default_def)
  have failed: "email_task (\<lambda>m a t. Returns ''summary'') (\<lambda>a. Returns ''Name,Connects'')
     (evening_env\<lparr>item_store := Throws\<rparr>) = (Failed, [])"
    using email_task_sends_within_window [where env = "evening_env\<lparr>item_store := Throws\<rparr>"
        and snapshot_text = "\<lambda>m a t. Returns ''summary''"
        and csv_text = "\<lambda>a. Returns ''Name,Connects''"]
    by simp
  from r w e sent failed show ?thesis by simp
qed

text \<open>
  The claim as stated fails: outside the window the task is a failure when the storage
  read throws, and inside the window it sends nothing when no webhook is configured.
\<close>

theorem email_task_fails_outside_window:
  "\<not> within_30_minutes 18 3 0 \<and>
   email_task (\<lambda>m a t. Returns ''summary'') (\<lambda>a. Returns ''Name,Connects'')
     (evening_env\<lparr>item_store := Throws, now_hours := 3, now_minutes := 0\<rparr>) = (Failed, []) \<and>
   within_30_minutes 18 18 10 \<and>
   email_task (\<lambda>m a t. Returns ''summary'') (\<lambda>a. Returns ''Name,Connects'')
     (evening_env\<lparr>item_webhook := Returns None\<rparr>) = (NoData, [])"
  by (simp add: within_30_minutes_def clock_distance_def email_task_def on_return_def evening_env_def
      read_month_state_def or_default_def withinWindow_def DEFAULT_SEND_HOUR_def)


subsection \<open>Printing and parsing JSON\<close>

lemma run_ArrayOpen:
  "t \<noteq> TRBrack \<Longrightarrow> run (ArrayOpen c) (t # ts) = run (ExpectValue (CArr [] # c)) (t # ts)"
  by simp

lemma tokens_of_head: "\<exists>t ts. tokens_of v = t # ts \<and> t \<noteq> TRBrack"
proof (cases v)
  case (JNum n)
  then show ?thesis by (cases n) simp_all
qed simp_all

lemma run_elements:
  assumes "\<And>x st rest. x \<in> set (y # ys) \<Longrightarrow>
      run (ExpectValue st) (tokens_of x @ rest) = run (AfterValue (json_image x) st) rest"
  shows "run (ExpectValue (CArr es # c)) (separated TComma (map tokens_of (y # ys)) @ TRBrack # rest) =
      run (AfterValue (JArr (es @ map json_image (y # ys))) c) rest"
  using assms
proof (induction ys arbitrary: y es)
  case Nil
  then show ?case by simp
next
  case (Cons z zs)
  have "run (ExpectValue (CArr es # c))
      (separated TComma (map tokens_of (y # z # zs)) @ TRBrack # rest) =
      run (ExpectValue (CArr es # c))
        (tokens_of y @ (TComma # separated TComma (map tokens_of (z # zs)) @ TRBrack # rest))"
    by simp
  also have "\<dots> = run (AfterValue (json_image y) (CArr es # c))
        (TComma # separated TComma (map tokens_of (z # zs)) @ TRBrack # rest)"
    by (rule Cons.prems) simp
  also have "\<dots> = run (ExpectValue (CArr (es @ [json_image y]) # c))
        (separated TComma (map tokens_of (z # zs)) @ TRBrack # rest)"
    by simp
  also have "\<dots> = run (AfterValue (JArr ((es @ [json_image y]) @ map json_image (z # zs))) c) rest"
    using Cons.prems by (intro Cons.IH) simp
  finally show ?case by simp
qed


lemma run_ObjectOpen:
  "run (ObjectOpen c) (TString k # ts) = run (ExpectKey [] c) (TString k # ts)"
  by simp

lemma run_members:
  assumes "\<And>k v st rest. (k, v) \<in> set (q # qs) \<Longrightarrow>
      run (ExpectValue st) (tokens_of v @ rest) = run (AfterValue (json_image v) st) rest"
    and "distinct (map fst ms @ map fst (q # qs))"
  shows "run (ExpectKey ms c)
      (separated TComma (map (\<lambda>(k, v). TString k # TColon # tokens_of v) (q # qs)) @ TRBrace # rest) =
      run (AfterValue (JObj (ms @ map (\<lambda>(k, v). (k, json_image v)) (q # qs))) c) rest"
  using assms
proof (induction qs arbitrary: q ms)
  case Nil
  obtain k v where q: "q = (k, v)" by (cases q)
  have fresh: "k \<notin> fst ` set ms"
    using Nil.prems(2) q by auto
  have "run (ExpectValue (CObj ms k # c)) (tokens_of v @ TRBrace # rest) =
      run (AfterValue (json_image v) (CObj ms k # c)) (TRBrace # rest)"
    by (rule Nil.prems(1) [of k v]) (simp add: q)
  with q fresh show ?case
    by (simp add: obj_set_fresh)
next
  case (Cons r rs)
  obtain k v where q: "q = (k, v)" by (cases q)
  have fresh: "k \<notin> fst ` set ms"
    using Cons.prems(2) q by auto
  let ?more = "separated TComma (map (\<lambda>(k, v). TString k # TColon # tokens_of v) (r # rs)) @ TRBrace # rest"
  have "run (ExpectKey ms c)
      (separated TComma (map (\<lambda>(k, v). TString k # TColon # tokens_of v) (q # r # rs)) @ TRBrace # rest) =
      run (ExpectValue (CObj ms k # c)) (tokens_of v @ (TComma # ?more))"
    using q by simp
  also have "\<dots> = run (AfterValue (json_image v) (CObj ms k # c)) (TComma # ?more)"
    by (rule Cons.prems(1) [of k v]) (simp add: q)
  also have "\<dots> = run (ExpectKey (ms @ [(k, json_image v)]) c) ?more"
    using fresh by (simp add: obj_set_fresh)
  also have "\<dots> = run (AfterValue (JObj ((ms @ [(k, json_image v)]) @ map (\<lambda>(k, v). (k, json_image v)) (r # rs))) c) rest"
  proof (rule Cons.IH)
    show "distinct (map fst (ms @ [(k, json_image v)]) @ map fst (r # rs))"
      using Cons.prems(2) q by auto
  next
    fix k' v' st' rest'
    assume "(k', v') \<in> set (r # rs)"
    then show "run (ExpectValue st') (tokens_of v' @ rest') = run (AfterValue (json_image v') st') rest'"
      by (intro Cons.prems(1) [of k' v']) simp
  qed
  finally show ?case using q by simp
qed

lemma run_tokens_of:
  "distinct_keys v \<Longrightarrow>
   run (ExpectValue st) (tokens_of v @ rest) = run (AfterValue (json_image v) st) rest"
proof (induction v arbitrary: st rest)
  case JNull
  then show ?case by simp
next
  case (JBool b)
  then show ?case by simp
next
  case (JNum n)
  then show ?case by (cases n) simp_all
next
  case (JStr s)
  then show ?case by simp
next
  case (JArr xs)
  show ?case
  proof (cases xs)
    case Nil
    then show ?thesis by simp
  next
    case (Cons y ys)
    obtain t ts where t: "tokens_of y = t # ts" "t \<noteq> TRBrack"
      using tokens_of_head by blast
    have elems: "run (ExpectValue st') (tokens_of x @ rest') = run (AfterValue (json_image x) st') rest'"
      if "x \<in> set (y # ys)" for x st' rest'
      using that JArr Cons by (auto simp: list_all_iff)
    have "run (ExpectValue st) (tokens_of (JArr xs) @ rest) =
        run (ArrayOpen st) (separated TComma (map tokens_of (y # ys)) @ TRBrack # rest)"
      using Cons by simp
    also have "\<dots> = run (ExpectValue (CArr [] # st)) (separated TComma (map tokens_of (y # ys)) @ TRBrack # rest)"
    proof -
      have "\<exists>us. separated TComma (map tokens_of (y # ys)) @ TRBrack # rest = t # us"
        using t(1) by (cases ys) simp_all
      then show ?thesis
        using t(2) run_ArrayOpen by auto
    qed
    also have "\<dots> = run (AfterValue (JArr ([] @ map json_image (y # ys))) st) rest"
      using elems by (rule run_elements)
    finally show ?thesis
      using Cons by simp
  qed
next
  case (JObj ps)
  show ?case
  proof (cases ps)
    case Nil
    then show ?thesis by simp
  next
    case (Cons q qs)
    obtain k v where q: "q = (k, v)" by (cases q)
    have membs: "run (ExpectValue st') (tokens_of v' @ rest') = run (AfterValue (json_image v') st') rest'"
      if "(k', v') \<in> set (q # qs)" for k' v' st' rest'
    proof -
      from that Cons have "(k', v') \<in> set ps" by simp
      moreover from this JObj.prems have "distinct_keys v'"
        by (auto simp: list_all_iff)
      ultimately show ?thesis
        using JObj.IH [of "(k', v')" v'] by simp
    qed
    have d: "distinct (map fst [] @ map fst (q # qs))"
      using JObj.prems Cons by simp
    let ?ms = "separated TComma (map (\<lambda>(k, v). TString k # TColon # tokens_of v) (q # qs)) @ TRBrace # rest"
    have "run (ExpectValue st) (tokens_of (JObj ps) @ rest) = run (ObjectOpen st) ?ms"
      using Cons by simp
    also have "\<dots> = run (ExpectKey [] st) ?ms"
    proof -
      have "\<exists>us. ?ms = TString k # us"
        using q by (cases qs) simp_all
      then show ?thesis
        using run_ObjectOpen by auto
    qed
    also have "\<dots> = run (AfterValue (JObj ([] @ map (\<lambda>(k, v). (k, json_image v)) (q # qs))) st) rest"
      using membs d by (rule run_members)
    finally show ?thesis
      using Cons by simp
  qed
qed

lemma lex_digits:
  "\<forall>c \<in> set ds'. is_digit c \<Longrightarrow> tokenize (LNum neg ds) (ds' @ rest) = tokenize (LNum neg (ds @ ds')) rest"
  by (induction ds' arbitrary: ds) simp_all


lemma separator_chars:
  "c = CHR '','' \<or> c = CHR '']'' \<or> c = CHR ''}'' \<Longrightarrow> \<not> is_digit c \<and> \<not> is_ws c \<and> c \<noteq> CHR ''{'' \<and> c \<noteq> CHR ''[''
     \<and> c \<noteq> CHR '':'' \<and> c \<noteq> dquote"
  by (auto simp: is_digit_def is_ws_def dquote_def)

lemma lex_number_end:
  assumes "delim rest"
  shows "tokenize (LNum neg ds) rest = emit_opt (number_token neg ds) (tokenize LIdle rest)"
proof (cases rest)
  case Nil
  then show ?thesis by simp
next
  case (Cons c r)
  with assms consider "c = CHR '',''" | "c = CHR '']''" | "c = CHR ''}''"
    by (auto simp: delim_def)
  then show ?thesis
  proof cases
    case 1
    with Cons separator_chars [of c] show ?thesis by simp
  next
    case 2
    with Cons separator_chars [of c] show ?thesis by simp
  next
    case 3
    with Cons separator_chars [of c] show ?thesis by simp
  qed
qed


lemma number_token_show_nat:
  "number_token neg (show_nat n) = Some (TNumber (if neg then - int n else int n))"
proof -
  have "length (show_nat n) = 1" if "hd (show_nat n) = CHR ''0''"
    using hd_show_nat [OF that] by (simp add: show_nat_one_digit)
  then show ?thesis
    by (auto simp: number_token_def show_nat_nonempty digits_val_show_nat)
qed

lemma digit_chars:
  "is_digit d \<Longrightarrow> \<not> is_ws d \<and> d \<noteq> CHR ''{'' \<and> d \<noteq> CHR ''}'' \<and> d \<noteq> CHR ''['' \<and> d \<noteq> CHR '']''
     \<and> d \<noteq> CHR '','' \<and> d \<noteq> CHR '':'' \<and> d \<noteq> dquote \<and> d \<noteq> CHR ''-''"
  by (auto simp: is_digit_def is_ws_def dquote_def)

lemma lex_idle_digit:
  "is_digit d \<Longrightarrow> tokenize LIdle (d # cs) = tokenize (LNum False [d]) cs"
  using digit_chars [of d] by simp

lemma lex_idle_minus: "tokenize LIdle (CHR ''-'' # cs) = tokenize (LNum True []) cs"
  by (simp add: is_ws_def dquote_def)

lemma lex_show_nat:
  assumes "delim rest"
  shows "tokenize LIdle (show_nat n @ rest) = emit (TNumber (int n)) (tokenize LIdle rest)"
proof -
  obtain d ds where ds: "show_nat n = d # ds"
    using show_nat_nonempty by (cases "show_nat n") auto
  have digits: "\<forall>c \<in> set (show_nat n). is_digit c"
    using show_nat_digits by blast
  with ds have d: "is_digit d" "\<forall>c \<in> set ds. is_digit c"
    by simp_all
  have "tokenize LIdle (show_nat n @ rest) = tokenize LIdle (d # (ds @ rest))"
    using ds by simp
  also have "\<dots> = tokenize (LNum False [d]) (ds @ rest)"
    using d(1) by (rule lex_idle_digit)
  also have "\<dots> = tokenize (LNum False ([d] @ ds)) rest"
    using d(2) by (rule lex_digits)
  also have "\<dots> = emit_opt (number_token False (show_nat n)) (tokenize LIdle rest)"
    using lex_number_end [OF assms] ds by simp
  finally show ?thesis
    by (simp add: number_token_show_nat emit_opt_def)
qed

lemma lex_minus_show_nat:
  assumes "delim rest"
  shows "tokenize LIdle (CHR ''-'' # show_nat n @ rest) = emit (TNumber (- int n)) (tokenize LIdle rest)"
proof -
  have digits: "\<forall>c \<in> set (show_nat n). is_digit c"
    using show_nat_digits by blast
  have "tokenize LIdle (CHR ''-'' # show_nat n @ rest) = tokenize (LNum True []) (show_nat n @ rest)"
    by (rule lex_idle_minus)
  also have "\<dots> = tokenize (LNum True ([] @ show_nat n)) rest"
    using digits by (rule lex_digits)
  also have "\<dots> = emit_opt (number_token True (show_nat n)) (tokenize LIdle rest)"
    using lex_number_end [OF assms] by simp
  finally show ?thesis
    by (simp add: number_token_show_nat emit_opt_def)
qed

lemma lex_String_of_int:
  assumes "delim rest"
  shows "tokenize LIdle (String_of_int i @ rest) = emit (TNumber i) (tokenize LIdle rest)"
proof (cases "i < 0")
  case True
  have "String_of_int i @ rest = CHR ''-'' # show_nat (nat (- i)) @ rest"
    using True by (simp add: String_of_int_def)
  with True lex_minus_show_nat [OF assms, of "nat (- i)"] show ?thesis
    by (simp del: tokenize.simps)
next
  case False
  have "String_of_int i @ rest = show_nat (nat i) @ rest"
    using False by (simp add: String_of_int_def)
  with False lex_show_nat [OF assms, of "nat i"] show ?thesis
    by (simp del: tokenize.simps)
qed

lemma less_16_cases:
  "d < 16 \<Longrightarrow> d = 0 \<or> d = 1 \<or> d = 2 \<or> d = 3 \<or> d = 4 \<or> d = 5 \<or> d = 6 \<or> d = 7 \<or> d = 8 \<or> d = 9
     \<or> d = 10 \<or> d = 11 \<or> d = 12 \<or> d = 13 \<or> d = 14 \<or> d = (15 :: nat)"
  by arith

lemma hex_val_hex_digit: "d < 16 \<Longrightarrow> hex_val (hex_digit d) = Some d"
  using less_16_cases [of d] by (auto simp: hex_val_def hex_digit_def)

lemma lex_uni:
  assumes "hex_val a = Some 0" "hex_val b = Some 0" "hex_val h1 = Some d1" "hex_val h2 = Some d2"
    "16 * d1 + d2 < 256"
  shows "tokenize (LEsc acc) (CHR ''u'' # a # b # h1 # h2 # r) = tokenize (LStr (acc @ [char_of (16 * d1 + d2)])) r"
  using assms by (simp add: dquote_def)

lemma hex_val_zero: "hex_val CHR ''0'' = Some 0"
  by (simp add: hex_val_def)

lemma lex_control:
  assumes "(of_char c :: nat) < 32"
  shows "tokenize (LStr acc)
      ([CHR 0x5C, CHR ''u'', CHR ''0'', CHR ''0'',
        hex_digit ((of_char c :: nat) div 16), hex_digit ((of_char c :: nat) mod 16)] @ r) =
      tokenize (LStr (acc @ [c])) r"
proof -
  let ?n = "of_char c :: nat"
  have h: "hex_val (hex_digit (?n div 16)) = Some (?n div 16)" "hex_val (hex_digit (?n mod 16)) = Some (?n mod 16)"
    using assms by (simp_all add: hex_val_hex_digit)
  have "16 * (?n div 16) + ?n mod 16 = ?n"
    by simp
  moreover have "?n < 256"
    using assms by simp
  ultimately have "tokenize (LEsc acc) (CHR ''u'' # CHR ''0'' # CHR ''0'' # hex_digit (?n div 16) # hex_digit (?n mod 16) # r)
      = tokenize (LStr (acc @ [char_of ?n])) r"
    using lex_uni [OF hex_val_zero hex_val_zero h, of acc r] by simp
  then show ?thesis
    by (simp add: dquote_def)
qed

lemma lex_escaped:
  "tokenize (LStr acc) (CHR 0x5C # dquote # r) = tokenize (LStr (acc @ [dquote])) r"
  "tokenize (LStr acc) (CHR 0x5C # CHR 0x5C # r) = tokenize (LStr (acc @ [CHR 0x5C])) r"
  "tokenize (LStr acc) (CHR 0x5C # CHR ''b'' # r) = tokenize (LStr (acc @ [CHR 0x08])) r"
  "tokenize (LStr acc) (CHR 0x5C # CHR ''f'' # r) = tokenize (LStr (acc @ [CHR 0x0C])) r"
  "tokenize (LStr acc) (CHR 0x5C # CHR ''n'' # r) = tokenize (LStr (acc @ [CHR 0x0A])) r"
  "tokenize (LStr acc) (CHR 0x5C # CHR ''r'' # r) = tokenize (LStr (acc @ [CHR 0x0D])) r"
  "tokenize (LStr acc) (CHR 0x5C # CHR ''t'' # r) = tokenize (LStr (acc @ [CHR 0x09])) r"
  by (simp_all add: dquote_def)

lemma lex_plain:
  "c \<noteq> dquote \<Longrightarrow> c \<noteq> CHR 0x5C \<Longrightarrow> \<not> (of_char c :: nat) < 32 \<Longrightarrow>
   tokenize (LStr acc) (c # r) = tokenize (LStr (acc @ [c])) r"
  by simp

lemma lex_quote_char: "tokenize (LStr acc) (quote_char c @ r) = tokenize (LStr (acc @ [c])) r"
proof -
  consider "c = dquote" | "c = CHR 0x5C" | "c = CHR 0x08" | "c = CHR 0x0C" | "c = CHR 0x0A"
    | "c = CHR 0x0D" | "c = CHR 0x09"
    | "c \<noteq> dquote" "c \<noteq> CHR 0x5C" "c \<noteq> CHR 0x08" "c \<noteq> CHR 0x0C" "c \<noteq> CHR 0x0A" "c \<noteq> CHR 0x0D"
      "c \<noteq> CHR 0x09" "(of_char c :: nat) < 32"
    | "c \<noteq> dquote" "c \<noteq> CHR 0x5C" "c \<noteq> CHR 0x08" "c \<noteq> CHR 0x0C" "c \<noteq> CHR 0x0A" "c \<noteq> CHR 0x0D"
      "c \<noteq> CHR 0x09" "\<not> (of_char c :: nat) < 32"
    by blast
  then show ?thesis
  proof cases
    case 1
    have "quote_char dquote = [CHR 0x5C, dquote]"
      by (simp add: quote_char_def)
    with 1 show ?thesis by (simp only: append_Cons append_Nil lex_escaped)
  next
    case 2
    have "quote_char (CHR 0x5C) = [CHR 0x5C, CHR 0x5C]"
      by (simp add: quote_char_def dquote_def)
    with 2 show ?thesis by (simp only: append_Cons append_Nil lex_escaped)
  next
    case 3
    have "quote_char (CHR 0x08) = [CHR 0x5C, CHR ''b'']"
      by (simp add: quote_char_def dquote_def)
    with 3 show ?thesis by (simp only: append_Cons append_Nil lex_escaped)
  next
    case 4
    have "quote_char (CHR 0x0C) = [CHR 0x5C, CHR ''f'']"
      by (simp add: quote_char_def dquote_def)
    with 4 show ?thesis by (simp only: append_Cons append_Nil lex_escaped)
  next
    case 5
    have "quote_char (CHR 0x0A) = [CHR 0x5C, CHR ''n'']"
      by (simp add: quote_char_def dquote_def)
    with 5 show ?thesis by (simp only: append_Cons append_Nil lex_escaped)
  next
    case 6
    have "quote_char (CHR 0x0D) = [CHR 0x5C, CHR ''r'']"
      by (simp add: quote_char_def dquote_def)
    with 6 show ?thesis by (simp only: append_Cons append_Nil lex_escaped)
  next
    case 7
    have "quote_char (CHR 0x09) = [CHR 0x5C, CHR ''t'']"
      by (simp add: quote_char_def dquote_def)
    with 7 show ?thesis by (simp only: append_Cons append_Nil lex_escaped)
  next
    case 8
    then have "quote_char c = [CHR 0x5C, CHR ''u'', CHR ''0'', CHR ''0'',
        hex_digit ((of_char c :: nat) div 16), hex_digit ((of_char c :: nat) mod 16)]"
      by (simp add: quote_char_def)
    with 8(8) show ?thesis by (simp only: lex_control)
  next
    case 9
    then have "quote_char c = [c]"
      by (simp add: quote_char_def)
    with 9 lex_plain [of c acc r] show ?thesis by (simp del: tokenize.simps)
  qed
qed


lemma lex_quoted:
  "tokenize (LStr acc) (concat (map quote_char s) @ dquote # rest) = emit (TString (acc @ s)) (tokenize LIdle rest)"
proof (induction s arbitrary: acc)
  case Nil
  then show ?case by simp
next
  case (Cons c cs)
  have "tokenize (LStr acc) (concat (map quote_char (c # cs)) @ dquote # rest) =
      tokenize (LStr acc) (quote_char c @ (concat (map quote_char cs) @ dquote # rest))"
    by simp
  also have "\<dots> = tokenize (LStr (acc @ [c])) (concat (map quote_char cs) @ dquote # rest)"
    by (rule lex_quote_char)
  also have "\<dots> = emit (TString ((acc @ [c]) @ cs)) (tokenize LIdle rest)"
    by (rule Cons.IH)
  finally show ?case by simp
qed

lemma lex_idle_dquote: "tokenize LIdle (dquote # cs) = tokenize (LStr []) cs"
  by (simp add: is_ws_def dquote_def)

lemma lex_quote_string:
  "tokenize LIdle (quote_string s @ rest) = emit (TString s) (tokenize LIdle rest)"
proof -
  have "tokenize LIdle (quote_string s @ rest) = tokenize (LStr []) (concat (map quote_char s) @ dquote # rest)"
    by (simp add: quote_string_def lex_idle_dquote del: tokenize.simps)
  then show ?thesis
    by (simp add: lex_quoted del: tokenize.simps)
qed

lemma lex_words:
  "tokenize LIdle (''null'' @ rest) = emit TNull (tokenize LIdle rest)"
  "tokenize LIdle (''true'' @ rest) = emit TTrue (tokenize LIdle rest)"
  "tokenize LIdle (''false'' @ rest) = emit TFalse (tokenize LIdle rest)"
  by (simp_all add: is_ws_def is_digit_def dquote_def)

lemma lex_punctuation:
  "tokenize LIdle (CHR ''['' # rest) = emit TLBrack (tokenize LIdle rest)"
  "tokenize LIdle (CHR '']'' # rest) = emit TRBrack (tokenize LIdle rest)"
  "tokenize LIdle (CHR ''{'' # rest) = emit TLBrace (tokenize LIdle rest)"
  "tokenize LIdle (CHR ''}'' # rest) = emit TRBrace (tokenize LIdle rest)"
  "tokenize LIdle (CHR '','' # rest) = emit TComma (tokenize LIdle rest)"
  "tokenize LIdle (CHR '':'' # rest) = emit TColon (tokenize LIdle rest)"
  by (simp_all add: is_ws_def)

lemma delim_simps: "delim []" "delim (CHR '','' # r)" "delim (CHR '']'' # r)" "delim (CHR ''}'' # r)"
  by (simp_all add: delim_def)

lemma emit_map: "emit t (prefixed ts r) = prefixed (t # ts) r"
  by (cases r) (simp_all add: emit_def prefixed_def)

lemma emit_plain: "emit t r = prefixed [t] r"
  by (cases r) (simp_all add: emit_def prefixed_def)

lemma map_option_append: "prefixed xs (prefixed ys r) = prefixed (xs @ ys) r"
  by (cases r) (simp_all add: prefixed_def)

lemma prefixed_Some: "prefixed ts (Some us) = Some (ts @ us)"
  by (simp add: prefixed_def)

lemma lex_words':
  "tokenize LIdle (CHR ''n'' # CHR ''u'' # CHR ''l'' # CHR ''l'' # rest) = emit TNull (tokenize LIdle rest)"
  "tokenize LIdle (CHR ''t'' # CHR ''r'' # CHR ''u'' # CHR ''e'' # rest) = emit TTrue (tokenize LIdle rest)"
  "tokenize LIdle (CHR ''f'' # CHR ''a'' # CHR ''l'' # CHR ''s'' # CHR ''e'' # rest) = emit TFalse (tokenize LIdle rest)"
  using lex_words [of rest] by simp_all

lemma lex_elements:
  assumes "\<And>x rest. x \<in> set (y # ys) \<Longrightarrow> delim rest \<Longrightarrow>
      tokenize LIdle (JSON_stringify x @ rest) = prefixed ((tokens_of x)) (tokenize LIdle rest)"
  shows "tokenize LIdle (join '','' (map JSON_stringify (y # ys)) @ CHR '']'' # rest) =
      prefixed ((separated TComma (map tokens_of (y # ys)) @ [TRBrack])) (tokenize LIdle rest)"
  using assms
proof (induction ys arbitrary: y)
  case Nil
  have "tokenize LIdle (JSON_stringify y @ CHR '']'' # rest) =
      prefixed ((tokens_of y)) (tokenize LIdle (CHR '']'' # rest))"
    by (rule Nil.prems) (simp_all add: delim_simps)
  then show ?case
    by (simp add: lex_punctuation emit_plain map_option_append del: tokenize.simps)
next
  case (Cons z zs)
  let ?more = "join '','' (map JSON_stringify (z # zs)) @ CHR '']'' # rest"
  have "tokenize LIdle (join '','' (map JSON_stringify (y # z # zs)) @ CHR '']'' # rest) =
      tokenize LIdle (JSON_stringify y @ CHR '','' # ?more)"
    by simp
  also have "\<dots> = prefixed ((tokens_of y)) (tokenize LIdle (CHR '','' # ?more))"
    by (rule Cons.prems) (simp_all add: delim_simps)
  also have "tokenize LIdle (CHR '','' # ?more) = emit TComma (tokenize LIdle ?more)"
    by (rule lex_punctuation)
  also have "tokenize LIdle ?more =
      prefixed ((separated TComma (map tokens_of (z # zs)) @ [TRBrack])) (tokenize LIdle rest)"
    by (rule Cons.IH) (simp add: Cons.prems)
  finally show ?case
    by (simp add: emit_map map_option_append del: tokenize.simps)
qed

lemma lex_members:
  assumes "\<And>k v rest. (k, v) \<in> set (q # qs) \<Longrightarrow> delim rest \<Longrightarrow>
      tokenize LIdle (JSON_stringify v @ rest) = prefixed ((tokens_of v)) (tokenize LIdle rest)"
  shows "tokenize LIdle (join '','' (map (\<lambda>(k, v). quote_string k @ '':'' @ JSON_stringify v) (q # qs))
        @ CHR ''}'' # rest) =
      prefixed ((separated TComma (map (\<lambda>(k, v). TString k # TColon # tokens_of v) (q # qs)) @ [TRBrace]))
        (tokenize LIdle rest)"
  using assms
proof (induction qs arbitrary: q)
  case Nil
  obtain k v where q: "q = (k, v)" by (cases q)
  have "tokenize LIdle (quote_string k @ CHR '':'' # JSON_stringify v @ CHR ''}'' # rest) =
      emit (TString k) (emit TColon (tokenize LIdle (JSON_stringify v @ CHR ''}'' # rest)))"
    by (simp only: lex_quote_string lex_punctuation)
  also have "tokenize LIdle (JSON_stringify v @ CHR ''}'' # rest) =
      prefixed ((tokens_of v)) (tokenize LIdle (CHR ''}'' # rest))"
    by (rule Nil.prems [of k v]) (simp_all add: q delim_simps)
  finally show ?case
    using q by (simp add: lex_punctuation emit_plain map_option_append del: tokenize.simps)
next
  case (Cons r rs)
  obtain k v where q: "q = (k, v)" by (cases q)
  let ?more = "join '','' (map (\<lambda>(k, v). quote_string k @ '':'' @ JSON_stringify v) (r # rs)) @ CHR ''}'' # rest"
  have "tokenize LIdle (quote_string k @ CHR '':'' # JSON_stringify v @ CHR '','' # ?more) =
      emit (TString k) (emit TColon (tokenize LIdle (JSON_stringify v @ CHR '','' # ?more)))"
    by (simp only: lex_quote_string lex_punctuation)
  also have "tokenize LIdle (JSON_stringify v @ CHR '','' # ?more) =
      prefixed ((tokens_of v)) (tokenize LIdle (CHR '','' # ?more))"
    by (rule Cons.prems [of k v]) (simp_all add: q delim_simps)
  also have "tokenize LIdle (CHR '','' # ?more) = emit TComma (tokenize LIdle ?more)"
    by (rule lex_punctuation)
  also have "tokenize LIdle ?more =
      prefixed ((separated TComma (map (\<lambda>(k, v). TString k # TColon # tokens_of v) (r # rs)) @ [TRBrace]))
        (tokenize LIdle rest)"
  proof (rule Cons.IH)
    fix k' v' rest'
    assume "(k', v') \<in> set (r # rs)" "delim rest'"
    then show "tokenize LIdle (JSON_stringify v' @ rest') = prefixed (tokens_of v') (tokenize LIdle rest')"
      by (intro Cons.prems [of k' v']) simp_all
  qed
  finally show ?case
    using q by (simp add: emit_map emit_plain map_option_append del: tokenize.simps)
qed

lemma lex_stringify:
  "delim rest \<Longrightarrow>
   tokenize LIdle (JSON_stringify v @ rest) = prefixed ((tokens_of v)) (tokenize LIdle rest)"
proof (induction v arbitrary: rest)
  case JNull
  then show ?case
    by (simp add: lex_words' emit_plain del: tokenize.simps)
next
  case (JBool b)
  then show ?case
    by (simp add: lex_words' emit_plain del: tokenize.simps)
next
  case (JNum n)
  then show ?case
    by (cases n) (simp_all add: lex_words' lex_String_of_int emit_plain del: tokenize.simps)
next
  case (JStr s)
  then show ?case
    by (simp add: lex_quote_string emit_plain del: tokenize.simps)
next
  case (JArr xs)
  show ?case
  proof (cases xs)
    case Nil
    then show ?thesis
      by (simp add: lex_punctuation emit_plain map_option_append del: tokenize.simps)
  next
    case (Cons y ys)
    have "tokenize LIdle (join '','' (map JSON_stringify (y # ys)) @ CHR '']'' # rest) =
        prefixed ((separated TComma (map tokens_of (y # ys)) @ [TRBrack])) (tokenize LIdle rest)"
      by (rule lex_elements) (simp add: JArr.IH Cons)
    with Cons show ?thesis
      by (simp add: lex_punctuation emit_map del: tokenize.simps separated.simps join.simps)
  qed
next
  case (JObj ps)
  show ?case
  proof (cases ps)
    case Nil
    then show ?thesis
      by (simp add: lex_punctuation emit_plain map_option_append del: tokenize.simps)
  next
    case (Cons q qs)
    have "tokenize LIdle (join '','' (map (\<lambda>(k, v). quote_string k @ '':'' @ JSON_stringify v) (q # qs))
          @ CHR ''}'' # rest) =
        prefixed ((separated TComma (map (\<lambda>(k, v). TString k # TColon # tokens_of v) (q # qs)) @ [TRBrace]))
          (tokenize LIdle rest)"
    proof (rule lex_members)
      fix k v rest'
      assume "(k, v) \<in> set (q # qs)" "delim rest'"
      then show "tokenize LIdle (JSON_stringify v @ rest') = prefixed ((tokens_of v)) (tokenize LIdle rest')"
        using JObj.IH [of "(k, v)" v rest'] Cons by simp
    qed
    with Cons show ?thesis
      by (simp add: lex_punctuation emit_map del: tokenize.simps separated.simps join.simps)
  qed
qed

text \<open>
  Parsing what \<open>JSON.stringify\<close> printed gives the value back, with \<open>null\<close>
  in place of \<open>NaN\<close> and the infinities.
\<close>

lemma JSON_parse_stringify:
  "distinct_keys v \<Longrightarrow> JSON_parse (JSON_stringify v) = Inr (json_image v)"
proof -
  assume d: "distinct_keys v"
  have "tokenize LIdle (JSON_stringify v @ []) = prefixed ((tokens_of v)) (tokenize LIdle [])"
    by (rule lex_stringify) (simp add: delim_simps)
  then have l: "tokenize LIdle (JSON_stringify v) = Some (tokens_of v)"
    by (simp add: prefixed_Some)
  have "run (ExpectValue []) (tokens_of v @ []) = run (AfterValue (json_image v) []) []"
    using d by (rule run_tokens_of)
  then have "run (ExpectValue []) (tokens_of v) = Some (json_image v)"
    by simp
  with l show ?thesis
    by (simp add: JSON_parse_def)
qed


subsection \<open>Export and import\<close>

lemma finite_numbers_image: "finite_numbers v \<Longrightarrow> json_image v = v"
proof (induction v)
  case (JNum n)
  then show ?case by (cases n) simp_all
next
  case (JArr xs)
  then show ?case by (simp add: list_all_iff map_idI)
next
  case (JObj ps)
  have "(case p of (k, v) \<Rightarrow> (k, json_image v)) = p" if "p \<in> set ps" for p
  proof -
    obtain k v where p: "p = (k, v)" by (cases p)
    with that JObj.prems have "finite_numbers v"
      by (auto simp: list_all_iff)
    with JObj.IH [of p v] that p show ?thesis by simp
  qed
  then show ?case by (simp add: map_idI)
qed simp_all

text \<open>
  Claim C3, as the code has it: for a month state whose month is a non-empty string,
  whose targets are an object and whose associates are a list, with finite numbers
  only, importing the text that \<open>exportJSON\<close> printed succeeds and installs the
  same month, targets and associates, whatever the state at the time of the import.
\<close>

theorem export_then_import_restores_state:
  assumes "month st = JStr m" and "m \<noteq> []"
    and "targets st = JObj ts" and "associates st = JArr xs"
    and "distinct_keys (targets st)" and "distinct_keys (associates st)"
    and "finite_numbers (targets st)" and "finite_numbers (associates st)"
  shows "importJSON (cur\<lparr>importText := exportJSON st\<rparr>) =
      (cur\<lparr>month := month st, targets := targets st, associates := associates st,
           importVisible := False, importText := []\<rparr>, None)"
proof -
  let ?payload = "JObj [(''month'', month st), (''targets'', targets st), (''associates'', associates st)]"
  have "distinct_keys ?payload"
    using assms(1,5,6) by simp
  then have "JSON_parse (JSON_stringify ?payload) = Inr (json_image ?payload)"
    by (rule JSON_parse_stringify)
  moreover have "json_image ?payload = ?payload"
    using assms(1,7,8) by (simp add: finite_numbers_image)
  ultimately have "JSON_parse (exportJSON st) = Inr ?payload"
    by (simp add: exportJSON_def)
  then show ?thesis
    using assms(1-4) by (simp add: importJSON_def importParsed_def truthy_prop_def)
qed

theorem export_then_import_restores_state_witness:
  "importJSON (team_state\<lparr>importText := exportJSON team_state\<rparr>) =
     (team_state\<lparr>importVisible := False, importText := []\<rparr>, None)"
proof -
  have h: "month team_state = JStr ''2025-08''" "''2025-08'' \<noteq> []"
    "targets team_state = JObj [(''connects'', JNum (Fin 800))]"
    "distinct_keys (targets team_state)" "distinct_keys (associates team_state)"
    "finite_numbers (targets team_state)" "finite_numbers (associates team_state)"
    by (simp_all add: team_state_def)
  have a: "associates team_state =
        JArr [JObj [(''id'', JStr ''id-1''), (''name'', JStr ''Alex''),
                    (''metrics'',
                     JObj [(''connects'', JNum (Fin 120)), (''geoData'', JNum (Fin 10)),
                           (''buyerAppointments'', JNum (Fin 3)), (''marketAppraisals'', JNum (Fin 4)),
                           (''listingsGenerated'', JNum (Fin 0))])]]"
    by (simp add: team_state_def)
  have "team_state\<lparr>month := month team_state, targets := targets team_state,
      associates := associates team_state, importVisible := False, importText := []\<rparr> =
      team_state\<lparr>importVisible := False, importText := []\<rparr>"
    by simp
  with export_then_import_restores_state [OF h(1,2,3) a h(4,5,6,7), of team_state] show ?thesis
    by simp
qed

text \<open>
  The claim as stated fails for a metric that is \<open>Infinity\<close>, which
  \<open>updateMetric\<close> stores: the export prints it as \<open>null\<close> and the import
  brings back \<open>null\<close>. It also fails for the empty month string: the import
  refuses the exported text.
\<close>

theorem export_then_import_loses_infinity:
  "updateMetric ''id-1'' ''connects'' PosInf team_state = Inr infinity_state \<and>
   snd (importJSON (infinity_state\<lparr>importText := exportJSON infinity_state\<rparr>)) = None \<and>
   associates (fst (importJSON (infinity_state\<lparr>importText := exportJSON infinity_state\<rparr>))) =
     JArr [JObj [(''id'', JStr ''id-1''), (''name'', JStr ''Alex''),
                 (''metrics'',
                  JObj [(''connects'', JNull), (''geoData'', JNum (Fin 10)),
                        (''buyerAppointments'', JNum (Fin 3)), (''marketAppraisals'', JNum (Fin 4)),
                        (''listingsGenerated'', JNum (Fin 0))])]] \<and>
   associates (fst (importJSON (infinity_state\<lparr>importText := exportJSON infinity_state\<rparr>))) \<noteq>
     associates infinity_state \<and>
   snd (importJSON (team_state\<lparr>month := JStr [], importText := exportJSON (team_state\<lparr>month := JStr []\<rparr>)\<rparr>)) =
     Some (''Import failed'', ''JSON missing keys {month, targets, associates}'')"
  by code_simp

end
